theory Spec2Isabelle
  imports Complex_Main "HOL-Library.Multiset" "HOL-Library.AList"
begin

section \<open>Strings\<close>

text \<open>
  A Python \<open>str\<close> is modelled as a \<open>string\<close>, the list of its UTF-8 bytes. All
  keywords and titles the code compares against are ASCII, and a substring test on
  the bytes of well-formed UTF-8 agrees with the test on code points.

  \<open>str.lower\<close> is Python's built-in; its result depends on the Unicode character
  database. The functions that call it take it as the parameter \<open>str_lower\<close>, so
  every statement about them holds of the built-in itself.

  \<open>lower_basic\<close> is the instance used in the worked examples. It agrees with
  \<open>str.lower\<close> on ASCII text and on the two code points beyond ASCII whose lower-case
  form holds an ASCII letter: U+212A (KELVIN SIGN, bytes E2 84 AA) gives \<open>k\<close>, and
  U+0130 (bytes C4 B0) gives \<open>i\<close> followed by U+0307 (bytes CC 87). It keeps every
  other byte.
\<close>

definition lower_char :: "char \<Rightarrow> char" where
  "lower_char c =
     (let n = (of_char c :: nat)
      in if 65 \<le> n \<and> n \<le> 90 then char_of (n + 32) else c)"

fun lower_basic :: "string \<Rightarrow> string" where
  "lower_basic (a # b # c # cs) =
     (if a = CHR 0xE2 \<and> b = CHR 0x84 \<and> c = CHR 0xAA then CHR ''k'' # lower_basic cs
      else if a = CHR 0xC4 \<and> b = CHR 0xB0
           then CHR ''i'' # CHR 0xCC # CHR 0x87 # lower_basic (c # cs)
      else lower_char a # lower_basic (b # c # cs))"
| "lower_basic [a, b] =
     (if a = CHR 0xC4 \<and> b = CHR 0xB0 then [CHR ''i'', CHR 0xCC, CHR 0x87]
      else [lower_char a, lower_char b])"
| "lower_basic [a] = [lower_char a]"
| "lower_basic [] = []"

text \<open>\<open>s.startswith(kw)\<close> and the substring test \<open>kw in s\<close>.\<close>

fun starts_with :: "string \<Rightarrow> string \<Rightarrow> bool" where
  "starts_with s [] = True"
| "starts_with [] (k # ks) = False"
| "starts_with (c # cs) (k # ks) = (c = k \<and> starts_with cs ks)"

fun contains :: "string \<Rightarrow> string \<Rightarrow> bool" where
  "contains [] kw = (kw = [])"
| "contains (c # cs) kw = (starts_with (c # cs) kw \<or> contains cs kw)"

text \<open>\<open>sep.join(xs)\<close>.\<close>

fun join :: "string \<Rightarrow> string list \<Rightarrow> string" where
  "join sep [] = []"
| "join sep [x] = x"
| "join sep (x # y # ys) = x @ sep @ join sep (y # ys)"

section \<open>Values and errors\<close>

text \<open>
  A value decoded from JSON, as \<open>json.loads\<close> and \<open>response.json()\<close> build it: \<open>None\<close>,
  a \<open>bool\<close>, an \<open>int\<close>, a \<open>float\<close> (a finite one by its value; \<open>NaN\<close>, \<open>Infinity\<close> and
  \<open>-Infinity\<close>, which the decoder accepts, by their text), a \<open>str\<close>, a \<open>list\<close>, or a
  \<open>dict\<close> as the list of its items (keys distinct).
\<close>

datatype json =
    JNull
  | JBool bool
  | JInt int
  | JFloat rat
  | JNonFinite string
  | JStr string
  | JArr "json list"
  | JObj "(string \<times> json) list"

text \<open>
  The exceptions of the code. The ComfyUI backend raises plain \<open>Exception\<close> and
  \<open>ValueError\<close> objects told apart by their message; each gets a constructor of its own:
  \<^item> \<open>ConfigurationError\<close>: \<open>ValueError("Could not find a node with title 'Input Prompt' ...")\<close>;
  \<^item> \<open>TimeoutError\<close>: \<open>Exception("ComfyUI workflow timed out after {timeout} seconds")\<close>;
  \<^item> \<open>ExecutionError\<close>: \<open>Exception("ComfyUI workflow error: {status['error']}")\<close>;
  \<^item> \<open>ValidationError\<close>: raised by a pydantic model whose field has the wrong type;
  \<^item> \<open>TypeError\<close>, \<open>AttributeError\<close>, \<open>KeyError\<close>: raised by Python itself when a
    value has not the type an operation needs;
  \<^item> \<open>Raised\<close>: any other exception (of a collaborator), with its message.
\<close>

datatype error =
    ConfigurationError
  | TimeoutError int
  | ExecutionError json
  | ValidationError
  | TypeError
  | AttributeError
  | KeyError
  | Raised string

text \<open>
  What Python does with a decoded value of any type. \<open>truthy v\<close> is \<open>bool(v)\<close>.
  \<open>py_contains v key\<close> is \<open>key in v\<close> for a \<open>str\<close> key: a key of a \<open>dict\<close>, an element
  of a \<open>list\<close>, a substring of a \<open>str\<close>, and \<open>TypeError\<close> for a value that is not
  iterable. \<open>py_getitem v key\<close> is \<open>v[key]\<close> for a \<open>str\<close> key, which only a \<open>dict\<close>
  supports. \<open>py_get v key fallback\<close> is \<open>v.get(key, fallback)\<close>, a method only a \<open>dict\<close>
  has.
\<close>

definition truthy :: "json \<Rightarrow> bool" where
  "truthy v =
     (case v of
        JNull \<Rightarrow> False
      | JBool b \<Rightarrow> b
      | JInt n \<Rightarrow> n \<noteq> 0
      | JFloat x \<Rightarrow> x \<noteq> 0
      | JNonFinite s \<Rightarrow> True
      | JStr s \<Rightarrow> s \<noteq> []
      | JArr xs \<Rightarrow> xs \<noteq> []
      | JObj items \<Rightarrow> items \<noteq> [])"

definition py_contains :: "json \<Rightarrow> string \<Rightarrow> error + bool" where
  "py_contains v key =
     (case v of
        JObj items \<Rightarrow> Inr (map_of items key \<noteq> None)
      | JArr xs \<Rightarrow> Inr (JStr key \<in> set xs)
      | JStr s \<Rightarrow> Inr (contains s key)
      | _ \<Rightarrow> Inl TypeError)"

definition py_getitem :: "json \<Rightarrow> string \<Rightarrow> error + json" where
  "py_getitem v key =
     (case v of
        JObj items \<Rightarrow> (case map_of items key of None \<Rightarrow> Inl KeyError | Some x \<Rightarrow> Inr x)
      | _ \<Rightarrow> Inl TypeError)"

definition py_get :: "json \<Rightarrow> string \<Rightarrow> json \<Rightarrow> error + json" where
  "py_get v key fallback =
     (case v of
        JObj items \<Rightarrow> Inr (case map_of items key of None \<Rightarrow> fallback | Some x \<Rightarrow> x)
      | _ \<Rightarrow> Inl AttributeError)"

section \<open>ImagePrompt\<close>

record ImagePrompt =
  prompt :: string
  theme_prompt :: "string option"
  language :: string

text \<open>\<open>self.theme_prompt\<close> is truthy when it is neither \<open>None\<close> nor the empty string.\<close>

definition get_image_prompt :: "ImagePrompt \<Rightarrow> bool \<Rightarrow> string" where
  "get_image_prompt p with_theme =
     (case theme_prompt p of
        None \<Rightarrow> prompt p
      | Some theme \<Rightarrow>
          if with_theme \<and> theme \<noteq> [] then prompt p @ '', '' @ theme else prompt p)"

section \<open>Classifier: \<open>AdaptiveImageService.decide_image_source\<close>\<close>

definition physics_keywords :: "string list" where
  "physics_keywords =
    [''pendulum'', ''oscillation'', ''wave'', ''frequency'', ''amplitude'', ''period'',
     ''momentum'', ''velocity'', ''acceleration'', ''force'', ''gravity'', ''friction'',
     ''energy'', ''kinetic'', ''potential'', ''thermodynamics'', ''heat'', ''temperature'',
     ''pressure'', ''volume'', ''gas'', ''molecule'', ''atom'', ''particle'', ''electron'',
     ''photon'', ''quantum'', ''relativity'', ''electromagnetic'', ''magnetic'', ''electric'',
     ''circuit'', ''resistance'', ''voltage'', ''current'', ''capacitor'', ''inductor'',
     ''lens'', ''mirror'', ''optics'', ''refraction'', ''reflection'', ''diffraction'',
     ''formula'', ''equation'', ''physics'', ''mechanics'', ''dynamics'', ''statics'',
     ''sinusoidal'', ''harmonic'', ''spring'', ''mass'', ''weight'', ''newton'', ''joule'',
     ''watt'', ''hertz'', ''wavelength'', ''spectrum'', ''radiation'', ''nuclear'']"

definition chemistry_keywords :: "string list" where
  "chemistry_keywords =
    [''molecule'', ''atom'', ''chemical'', ''reaction'', ''compound'', ''element'',
     ''periodic'', ''electron'', ''proton'', ''neutron'', ''ion'', ''bond'', ''covalent'',
     ''ionic'', ''hydrogen'', ''oxygen'', ''carbon'', ''nitrogen'', ''sulfur'',
     ''acid'', ''base'', ''ph'', ''oxidation'', ''reduction'', ''catalyst'',
     ''organic'', ''inorganic'', ''polymer'', ''protein'', ''enzyme'', ''dna'', ''rna'',
     ''chemistry'', ''molecular'', ''crystal'', ''solution'', ''concentration'',
     ''molar'', ''molarity'', ''titration'', ''equilibrium'']"

definition biology_keywords :: "string list" where
  "biology_keywords =
    [''cell'', ''dna'', ''rna'', ''gene'', ''chromosome'', ''mitosis'', ''meiosis'',
     ''protein'', ''enzyme'', ''bacteria'', ''virus'', ''organism'', ''species'',
     ''evolution'', ''natural selection'', ''genetics'', ''heredity'', ''mutation'',
     ''photosynthesis'', ''respiration'', ''metabolism'', ''ecosystem'', ''biome'',
     ''anatomy'', ''physiology'', ''organ'', ''tissue'', ''neuron'', ''synapse'',
     ''biology'', ''biological'', ''microscope'', ''specimen'', ''bacteria'',
     ''membrane'', ''nucleus'', ''cytoplasm'', ''mitochondria'', ''chloroplast'']"

definition math_keywords :: "string list" where
  "math_keywords =
    [''graph'', ''chart'', ''diagram'', ''formula'', ''equation'', ''statistics'',
     ''percentage'', ''ratio'', ''proportion'', ''function'', ''derivative'', ''integral'',
     ''algebra'', ''geometry'', ''trigonometry'', ''calculus'', ''probability'',
     ''distribution'', ''mean'', ''median'', ''deviation'', ''variance'', ''correlation'',
     ''pie chart'', ''bar chart'', ''histogram'', ''scatter'', ''plot'', ''axis'',
     ''coordinate'', ''vector'', ''matrix'', ''theorem'', ''proof'', ''calculation'']"

definition educational_keywords :: "string list" where
  "educational_keywords =
    [''diagram'', ''schematic'', ''illustration'', ''infographic'', ''model'',
     ''educational'', ''classroom'', ''blackboard'', ''whiteboard'', ''textbook'',
     ''scientific'', ''technical'', ''labeled'', ''annotation'', ''scheme'',
     ''structure'', ''system'', ''process'', ''cycle'', ''flow'', ''mechanism'']"

definition all_search_keywords :: "string list" where
  "all_search_keywords =
     physics_keywords @ chemistry_keywords @ biology_keywords @
     math_keywords @ educational_keywords"

definition matched_keywords :: "string \<Rightarrow> string list" where
  "matched_keywords prompt_lower = filter (contains prompt_lower) all_search_keywords"

text \<open>
  \<open>re.search(r'\{[^}]+\}', response)\<close>: the leftmost \<open>{\<close> that is followed by at least
  one character other than \<open>}\<close> and then by \<open>}\<close>; the match runs to the first \<open>}\<close>
  after it. At a \<open>{\<close> followed directly by \<open>}\<close>, or with no \<open>}\<close> after it, the search
  moves on to the next position.
\<close>

fun re_search_object :: "string \<Rightarrow> string option" where
  "re_search_object [] = None"
| "re_search_object (c # cs) =
     (if c = CHR ''{'' \<and> takeWhile (\<lambda>x. x \<noteq> CHR ''}'') cs \<noteq> []
         \<and> dropWhile (\<lambda>x. x \<noteq> CHR ''}'') cs \<noteq> []
      then Some (CHR ''{'' # takeWhile (\<lambda>x. x \<noteq> CHR ''}'') cs @ ''}'')
      else re_search_object cs)"

text \<open>
  What the language-model path does for a prompt. \<open>LLMClient()\<close> and \<open>get_model()\<close>
  run before the \<open>try\<close> block, so an exception of theirs leaves the function
  (\<open>SetupRaises\<close>); \<open>llm_client.generate\<close> runs inside it (\<open>CallRaises\<close>), or returns
  the response text.
\<close>

datatype llm_outcome =
    SetupRaises error
  | CallRaises error
  | Response string

text \<open>
  The result of one call: what is returned (or raised), and the prompts for which the
  language-model path was entered, in order.
\<close>

record classify_run =
  returned :: "error + (string \<times> json)"
  llm_calls :: "string list"

definition default_decision :: "string \<times> json" where
  "default_decision = (''search'', JStr ''Defaulting to search due to classification error'')"

text \<open>
  The body of the \<open>try\<close> block after the response has arrived. \<open>json_loads\<close> is the
  standard library's \<open>json.loads\<close>, \<open>None\<close> when it raises. Every exception raised in
  the block (by \<open>json.loads\<close>, or by \<open>result.get\<close> on a value that is no \<open>dict\<close>) is
  caught and leads to the default at the end of the function, as a failed regular
  expression search does.
\<close>

definition parse_decision :: "(string \<Rightarrow> json option) \<Rightarrow> string \<Rightarrow> string \<times> json" where
  "parse_decision json_loads response =
     (case re_search_object response of
        None \<Rightarrow> default_decision
      | Some json_match \<Rightarrow>
          (case json_loads json_match of
             Some (JObj result) \<Rightarrow>
               (let decision = (case map_of result ''decision'' of
                                  None \<Rightarrow> JStr ''search'' | Some v \<Rightarrow> v);
                    reason = (case map_of result ''reason'' of
                                None \<Rightarrow> JStr ''Default decision'' | Some v \<Rightarrow> v)
                in (if decision = JStr ''generate'' then ''generate'' else ''search'', reason))
           | _ \<Rightarrow> default_decision))"

definition decide_image_source ::
  "(string \<Rightarrow> string) \<Rightarrow> (string \<Rightarrow> json option) \<Rightarrow> (string \<Rightarrow> llm_outcome) \<Rightarrow>
   string \<Rightarrow> classify_run" where
  "decide_image_source str_lower json_loads llm prompt_str =
     (let prompt_lower = str_lower prompt_str;
          matched = matched_keywords prompt_lower
      in if matched \<noteq> [] then
           \<lparr>returned = Inr (''search'',
                JStr (''Scientific/educational content detected: '' @ join '', '' (take 3 matched))),
            llm_calls = []\<rparr>
         else
           \<lparr>returned =
              (case llm prompt_str of
                 SetupRaises e \<Rightarrow> Inl e
               | CallRaises e \<Rightarrow> Inr default_decision
               | Response response \<Rightarrow> Inr (parse_decision json_loads response)),
            llm_calls = [prompt_str]\<rparr>)"


section \<open>Aggregator: \<open>AdaptiveImageService.search_multiple_sources\<close>\<close>

text \<open>
  The pydantic models of the two clients and of the service. The field \<open>id\<close> of the
  client models is written \<open>image_id\<close>.
\<close>

record UnsplashImage =
  image_id :: string
  url :: string
  thumbnail_url :: string
  description :: "string option"
  photographer :: string
  photographer_url :: string
  source :: string
  attribution :: string

record WikimediaImage =
  image_id :: string
  url :: string
  thumbnail_url :: string
  title :: string
  description :: "string option"
  source :: string
  attribution :: string

record ImageAlternative =
  url :: string
  thumbnail_url :: "string option"
  source :: string
  attribution :: "string option"
  description :: "string option"

text \<open>
  The list \<open>results\<close> that \<open>asyncio.gather(*tasks, return_exceptions=True)\<close> returns:
  for each of the four tasks, in the order of \<open>tasks\<close>, the list it returned or the
  exception it raised.
\<close>

record search_results =
  unsplash_result :: "error + UnsplashImage list"
  wikimedia_result :: "error + WikimediaImage list"
  pexels_result :: "error + ImageAlternative list"
  pixabay_result :: "error + ImageAlternative list"

definition from_unsplash :: "UnsplashImage \<Rightarrow> ImageAlternative" where
  "from_unsplash img =
     \<lparr>url = UnsplashImage.url img,
      thumbnail_url = Some (UnsplashImage.thumbnail_url img),
      source = ''unsplash'',
      attribution = Some (UnsplashImage.attribution img),
      description = UnsplashImage.description img\<rparr>"

definition from_wikimedia :: "WikimediaImage \<Rightarrow> ImageAlternative" where
  "from_wikimedia img =
     \<lparr>url = WikimediaImage.url img,
      thumbnail_url = Some (WikimediaImage.thumbnail_url img),
      source = ''wikimedia'',
      attribution = Some (WikimediaImage.attribution img),
      description = WikimediaImage.description img\<rparr>"

text \<open>\<open>all_images\<close> after the four \<open>isinstance(results[k], list)\<close> blocks.\<close>

definition collect_images :: "search_results \<Rightarrow> ImageAlternative list" where
  "collect_images results =
     (case unsplash_result results of Inl e \<Rightarrow> [] | Inr imgs \<Rightarrow> map from_unsplash imgs) @
     (case wikimedia_result results of Inl e \<Rightarrow> [] | Inr imgs \<Rightarrow> map from_wikimedia imgs) @
     (case pexels_result results of Inl e \<Rightarrow> [] | Inr imgs \<Rightarrow> imgs) @
     (case pixabay_result results of Inl e \<Rightarrow> [] | Inr imgs \<Rightarrow> imgs)"

text \<open>
  The dictionary \<open>by_source\<close>, as the list of its items in insertion order: each image
  is appended to the list under its source, a new source is added at the end
  (\<open>group_step\<close> is one pass of the loop).
\<close>

definition group_step ::
  "ImageAlternative \<Rightarrow> (string \<times> ImageAlternative list) list \<Rightarrow>
   (string \<times> ImageAlternative list) list" where
  "group_step img by_source =
     AList.update (source img)
       ((case map_of by_source (source img) of None \<Rightarrow> [] | Some v \<Rightarrow> v) @ [img]) by_source"

definition group_by_source ::
  "ImageAlternative list \<Rightarrow> (string \<times> ImageAlternative list) list" where
  "group_by_source all_images = fold group_step all_images []"

text \<open>
  \<open>max(len(v) for v in by_source.values()) if by_source else 0\<close>: the lengths are
  natural numbers, so the maximum is folded from 0.
\<close>

definition max_len :: "(string \<times> ImageAlternative list) list \<Rightarrow> nat" where
  "max_len by_source = fold max (map (\<lambda>kv. length (snd kv)) by_source) 0"

definition source_order :: "string list" where
  "source_order = [''unsplash'', ''pexels'', ''wikimedia'', ''pixabay'']"

definition interleave :: "(string \<times> ImageAlternative list) list \<Rightarrow> ImageAlternative list" where
  "interleave by_source =
     concat (map (\<lambda>i.
               concat (map (\<lambda>src.
                         case map_of by_source src of
                           None \<Rightarrow> []
                         | Some v \<Rightarrow> if i < length v then [v ! i] else [])
                       source_order))
             [0..<max_len by_source])"

text \<open>
  \<open>adapters query per_source\<close> is what the four tasks do for a query. The function
  returns \<open>interleaved[:10]\<close>.
\<close>

definition interleaved :: "search_results \<Rightarrow> ImageAlternative list" where
  "interleaved results = interleave (group_by_source (collect_images results))"

definition search_multiple_sources ::
  "(string \<Rightarrow> int \<Rightarrow> search_results) \<Rightarrow> string \<Rightarrow> int \<Rightarrow> ImageAlternative list" where
  "search_multiple_sources adapters query per_source =
     take 10 (interleaved (adapters query per_source))"

text \<open>
  \<open>search_pexels_multiple\<close> and \<open>search_pixabay_multiple\<close>, the two tasks defined in
  the service itself. \<open>fetched\<close> is the outcome of the HTTP request and of decoding
  its body: an exception, or the list under \<open>photos\<close> (\<open>hits\<close>), each entry with the
  fields the code reads (\<open>None\<close> for a field that is missing, where \<open>photo["src"]["large"]\<close>
  raises KeyError). Every exception is caught and gives the empty list.
\<close>

record pexels_photo =
  src_large :: "string option"
  src_medium :: "string option"
  photo_photographer :: "string option"
  alt :: "string option"

definition search_pexels_multiple ::
  "string option \<Rightarrow> error + pexels_photo list \<Rightarrow> ImageAlternative list" where
  "search_pexels_multiple api_key fetched =
     (if api_key = None \<or> api_key = Some [] then []
      else case fetched of
        Inl e \<Rightarrow> []
      | Inr photos \<Rightarrow>
          if list_all (\<lambda>photo. src_large photo \<noteq> None \<and> src_medium photo \<noteq> None) photos
          then map (\<lambda>photo.
                 \<lparr>url = the (src_large photo),
                  thumbnail_url = src_medium photo,
                  source = ''pexels'',
                  attribution = Some (''Photo by '' @
                     (case photo_photographer photo of None \<Rightarrow> ''Unknown'' | Some n \<Rightarrow> n)
                     @ '' on Pexels''),
                  description = Some (case alt photo of None \<Rightarrow> [] | Some a \<Rightarrow> a)\<rparr>) photos
          else [])"

record pixabay_hit =
  largeImageURL :: "string option"
  previewURL :: "string option"
  user :: "string option"
  tags :: "string option"

definition search_pixabay_multiple ::
  "string option \<Rightarrow> error + pixabay_hit list \<Rightarrow> ImageAlternative list" where
  "search_pixabay_multiple api_key fetched =
     (if api_key = None \<or> api_key = Some [] then []
      else case fetched of
        Inl e \<Rightarrow> []
      | Inr hits \<Rightarrow>
          if list_all (\<lambda>hit. largeImageURL hit \<noteq> None \<and> previewURL hit \<noteq> None) hits
          then map (\<lambda>hit.
                 \<lparr>url = the (largeImageURL hit),
                  thumbnail_url = previewURL hit,
                  source = ''pixabay'',
                  attribution = Some (''Photo by '' @
                     (case user hit of None \<Rightarrow> ''Unknown'' | Some n \<Rightarrow> n)
                     @ '' on Pixabay''),
                  description = Some (case tags hit of None \<Rightarrow> [] | Some a \<Rightarrow> a)\<rparr>) hits
          else [])"

text \<open>
  The candidates of the two service-defined tasks carry the source their task writes
  into them.
\<close>

definition own_sources :: "search_results \<Rightarrow> bool" where
  "own_sources results =
     ((case pexels_result results of
         Inl e \<Rightarrow> True | Inr imgs \<Rightarrow> list_all (\<lambda>img. source img = ''pexels'') imgs) \<and>
      (case pixabay_result results of
         Inl e \<Rightarrow> True | Inr imgs \<Rightarrow> list_all (\<lambda>img. source img = ''pixabay'') imgs))"

text \<open>An adapter that raised, read as an adapter that returned the empty list.\<close>

definition as_empty :: "error + 'a list \<Rightarrow> error + 'a list" where
  "as_empty r = (case r of Inl e \<Rightarrow> Inr [] | Inr xs \<Rightarrow> Inr xs)"

definition raising_as_empty :: "search_results \<Rightarrow> search_results" where
  "raising_as_empty results =
     \<lparr>unsplash_result = as_empty (unsplash_result results),
      wikimedia_result = as_empty (wikimedia_result results),
      pexels_result = as_empty (pexels_result results),
      pixabay_result = as_empty (pixabay_result results)\<rparr>"

text \<open>What one adapter contributes: nothing when it raised.\<close>

datatype adapter = Unsplash | Wikimedia | Pexels | Pixabay

definition candidates :: "search_results \<Rightarrow> adapter \<Rightarrow> ImageAlternative list" where
  "candidates results a =
     (case a of
        Unsplash \<Rightarrow> (case unsplash_result results of Inl e \<Rightarrow> [] | Inr imgs \<Rightarrow> map from_unsplash imgs)
      | Wikimedia \<Rightarrow> (case wikimedia_result results of Inl e \<Rightarrow> [] | Inr imgs \<Rightarrow> map from_wikimedia imgs)
      | Pexels \<Rightarrow> (case pexels_result results of Inl e \<Rightarrow> [] | Inr imgs \<Rightarrow> imgs)
      | Pixabay \<Rightarrow> (case pixabay_result results of Inl e \<Rightarrow> [] | Inr imgs \<Rightarrow> imgs))"

text \<open>
  The source each adapter's candidates carry, and the adapters in the order in which
  the interleaving loop visits their sources.
\<close>

definition adapter_source :: "adapter \<Rightarrow> string" where
  "adapter_source a =
     (case a of Unsplash \<Rightarrow> ''unsplash'' | Wikimedia \<Rightarrow> ''wikimedia''
              | Pexels \<Rightarrow> ''pexels'' | Pixabay \<Rightarrow> ''pixabay'')"

definition adapter_order :: "adapter list" where
  "adapter_order = [Unsplash, Pexels, Wikimedia, Pixabay]"

text \<open>
  Notions used to reason about the interleaving: the value of \<open>by_source\<close> as a map,
  the candidate the loop appends for index \<open>i\<close> and source \<open>s\<close>, and one round of the
  outer loop written over the adapters.
\<close>

definition groups_of :: "ImageAlternative list \<Rightarrow> string \<Rightarrow> ImageAlternative list option" where
  "groups_of imgs s =
     (if filter (\<lambda>i. source i = s) imgs = [] then None
      else Some (filter (\<lambda>i. source i = s) imgs))"

definition pick :: "ImageAlternative list \<Rightarrow> nat \<Rightarrow> string \<Rightarrow> ImageAlternative list" where
  "pick imgs i s =
     (if i < length (filter (\<lambda>x. source x = s) imgs)
      then [filter (\<lambda>x. source x = s) imgs ! i] else [])"

definition row :: "search_results \<Rightarrow> nat \<Rightarrow> ImageAlternative list" where
  "row results i =
     concat (map (\<lambda>a. if i < length (candidates results a) then [candidates results a ! i] else [])
                 adapter_order)"

text \<open>Sample data for the worked instances below.\<close>

definition sample_unsplash :: "string \<Rightarrow> UnsplashImage" where
  "sample_unsplash u =
     \<lparr>UnsplashImage.image_id = u, UnsplashImage.url = ''https://images.unsplash.com/'' @ u,
      UnsplashImage.thumbnail_url = ''https://images.unsplash.com/thumb/'' @ u,
      UnsplashImage.description = None, photographer = ''Ann'', photographer_url = [],
      UnsplashImage.source = ''unsplash'',
      UnsplashImage.attribution = ''Photo by Ann on Unsplash''\<rparr>"

definition sample_wikimedia :: "string \<Rightarrow> WikimediaImage" where
  "sample_wikimedia w =
     \<lparr>WikimediaImage.image_id = w, WikimediaImage.url = ''https://upload.wikimedia.org/'' @ w,
      WikimediaImage.thumbnail_url = ''https://upload.wikimedia.org/'' @ w,
      title = w, WikimediaImage.description = None, WikimediaImage.source = ''wikimedia'',
      WikimediaImage.attribution = ''Image by Unknown via Wikimedia Commons (CC)''\<rparr>"

definition sample_results :: search_results where
  "sample_results =
     \<lparr>unsplash_result = Inr (map sample_unsplash [''u1'', ''u2'', ''u3'', ''u4'', ''u5'']),
      wikimedia_result = Inr [sample_wikimedia ''w1''],
      pexels_result = Inl (Raised ''connection reset''),
      pixabay_result = Inr []\<rparr>"

definition sample_photo :: "string \<Rightarrow> pexels_photo" where
  "sample_photo name =
     \<lparr>src_large = Some (''https://images.pexels.com/large/'' @ name),
      src_medium = Some (''https://images.pexels.com/medium/'' @ name),
      photo_photographer = Some ''Bob'', alt = Some ''red fox''\<rparr>"

definition sample_hit :: "string \<Rightarrow> pixabay_hit" where
  "sample_hit name =
     \<lparr>largeImageURL = Some (''https://pixabay.com/get/'' @ name),
      previewURL = Some (''https://cdn.pixabay.com/'' @ name),
      user = Some ''Cy'', tags = Some ''fox, animal''\<rparr>"

text \<open>
  A search with \<open>per_source = 4\<close>: Unsplash raises, and Wikimedia and the two tasks of
  the service return four candidates each.
\<close>

definition crowded_results :: search_results where
  "crowded_results =
     \<lparr>unsplash_result = Inl (Raised ''timeout''),
      wikimedia_result = Inr (map sample_wikimedia [''w1'', ''w2'', ''w3'', ''w4'']),
      pexels_result = Inr (search_pexels_multiple (Some ''key'')
                             (Inr (map sample_photo [''p1'', ''p2'', ''p3'', ''p4'']))),
      pixabay_result = Inr (search_pixabay_multiple (Some ''key'')
                              (Inr (map sample_hit [''x1'', ''x2'', ''x3'', ''x4''])))\<rparr>"

definition failing_results :: search_results where
  "failing_results =
     \<lparr>unsplash_result = Inl (Raised ''timeout''),
      wikimedia_result = Inr [],
      pexels_result = Inl (Raised ''connection reset''),
      pixabay_result = Inr []\<rparr>"

section \<open>Generation: \<open>ImageGenerationService.generate_image\<close>\<close>

text \<open>
  \<open>ImageAsset\<close>, with the dictionary \<open>extras\<close> as the list of its items. The function
  returns a \<open>str\<close> or an \<open>ImageAsset\<close>.
\<close>

record ImageAsset =
  path :: string
  is_uploaded :: bool
  extras :: "(string \<times> json) list"

datatype gen_result = Path string | Asset ImageAsset

text \<open>
  The configuration the service reads: the provider flags, the generation function
  chosen at construction (\<open>None\<close> when no provider is selected; it returns the image
  path or raises), the environment variable \<open>OPENAI_AGENT_URL\<close>, the agent-driven
  search \<open>search_via_openai_agent query agent_url language\<close> (it catches every
  exception and returns a list of URLs), and \<open>os.path.exists\<close>.
\<close>

record gen_config =
  is_image_generation_disabled :: bool
  is_stock_provider_selected :: bool
  image_gen_func :: "(string \<Rightarrow> error + string) option"
  openai_agent_url :: "string option"
  search_via_openai_agent :: "string \<Rightarrow> string \<Rightarrow> string \<Rightarrow> string list"
  path_exists :: "string \<Rightarrow> bool"

text \<open>The calls a run makes to the outside, with the text each one receives.\<close>

datatype call =
    AgentSearch string string
  | ImageGen string

record gen_run =
  gen_returned :: "error + gen_result"
  gen_calls :: "call list"

definition placeholder_path :: string where
  "placeholder_path = ''/static/images/placeholder.jpg''"

text \<open>\<open>ImageGenerationService.search_multiple_sources(query, language)\<close>.\<close>

definition agent_search_multiple_sources ::
  "gen_config \<Rightarrow> string \<Rightarrow> string \<Rightarrow> string list \<times> call list" where
  "agent_search_multiple_sources cfg query lang =
     (case openai_agent_url cfg of
        None \<Rightarrow> ([], [])
      | Some agent_url \<Rightarrow>
          if agent_url = [] then ([], [])
          else (search_via_openai_agent cfg query agent_url lang, [AgentSearch query lang]))"

text \<open>
  No exception leaves \<open>generate_image\<close>: the search catches its own, and the call of
  the generation function stands in a \<open>try\<close> block whose handler returns the
  placeholder path.
\<close>

definition generate_image :: "gen_config \<Rightarrow> ImagePrompt \<Rightarrow> gen_run" where
  "generate_image cfg p =
     (if is_image_generation_disabled cfg then
        \<lparr>gen_returned = Inr (Path placeholder_path), gen_calls = []\<rparr>
      else
        (let is_stock = is_stock_provider_selected cfg;
             image_prompt = get_image_prompt p (\<not> is_stock);
             searched = agent_search_multiple_sources cfg image_prompt (language p);
             results = fst searched
         in if results \<noteq> [] then
              \<lparr>gen_returned = Inr (Asset
                 \<lparr>path = hd results, is_uploaded = False,
                  extras = [(''prompt'', JStr (prompt p)),
                            (''candidates'', JArr (map JStr results)),
                            (''source'', JStr ''search'')]\<rparr>),
               gen_calls = snd searched\<rparr>
            else
              (case image_gen_func cfg of
                 None \<Rightarrow> \<lparr>gen_returned = Inr (Path placeholder_path), gen_calls = snd searched\<rparr>
               | Some gen_func \<Rightarrow>
                   \<lparr>gen_returned =
                      (case gen_func image_prompt of
                         Inl e \<Rightarrow> Inr (Path placeholder_path)
                       | Inr image_path \<Rightarrow>
                           if image_path \<noteq> [] \<and> starts_with image_path ''http'' then
                             Inr (Path image_path)
                           else if image_path \<noteq> [] \<and> path_exists cfg image_path then
                             Inr (Asset
                               \<lparr>path = image_path, is_uploaded = False,
                                extras = [(''prompt'', JStr (prompt p)),
                                          (''theme_prompt'',
                                           (case theme_prompt p of
                                              None \<Rightarrow> JNull | Some t \<Rightarrow> JStr t))]\<rparr>)
                           else Inr (Path placeholder_path)),
                    gen_calls = snd searched @ [ImageGen image_prompt]\<rparr>)))"

section \<open>Entry point: \<open>AdaptiveImageService.get_adaptive_image\<close>\<close>

record AdaptiveImageResponse =
  decision :: string
  reason :: string
  images :: "ImageAlternative list"

record adaptive_env =
  env_lower :: "string \<Rightarrow> string"
  env_json_loads :: "string \<Rightarrow> json option"
  env_llm :: "string \<Rightarrow> llm_outcome"
  env_adapters :: "string \<Rightarrow> int \<Rightarrow> search_results"
  env_gen :: gen_config

definition ai_image :: "string \<Rightarrow> string \<Rightarrow> ImageAlternative" where
  "ai_image result prompt_str =
     \<lparr>url = result, thumbnail_url = None, source = ''ai'',
      attribution = Some ''AI Generated'', description = Some prompt_str\<rparr>"

definition placeholder_image :: ImageAlternative where
  "placeholder_image =
     \<lparr>url = ''/static/images/placeholder.jpg'', thumbnail_url = None, source = ''placeholder'',
      attribution = Some ''Placeholder'', description = Some ''Image generation failed''\<rparr>"

text \<open>
  The response model declares \<open>reason: str\<close>: building it from a reason that is no
  string (the language model's JSON may hold any value there) raises.
\<close>

definition get_adaptive_image ::
  "adaptive_env \<Rightarrow> string \<Rightarrow> string \<Rightarrow> error + AdaptiveImageResponse" where
  "get_adaptive_image env prompt_str lang =
     (case returned (decide_image_source (env_lower env) (env_json_loads env) (env_llm env) prompt_str) of
        Inl e \<Rightarrow> Inl e
      | Inr decided \<Rightarrow>
          (let searched = (if fst decided = ''search''
                           then search_multiple_sources (env_adapters env) prompt_str 2 else []);
               fallback = (fst decided = ''search'' \<and> searched = []);
               decision1 = (if fallback then ''generate'' else fst decided);
               reason1 = (if fallback
                          then JStr ''Search returned no results, falling back to AI generation''
                          else snd decided);
               images1 =
                 (if decision1 = ''generate'' then
                    (case gen_returned (generate_image (env_gen env)
                            \<lparr>prompt = prompt_str, theme_prompt = None, language = lang\<rparr>) of
                       Inr (Path result) \<Rightarrow> [ai_image result prompt_str]
                     | Inr (Asset asset) \<Rightarrow> [ai_image (path asset) prompt_str]
                     | Inl e \<Rightarrow> [placeholder_image])
                  else searched)
           in case reason1 of
                JStr r \<Rightarrow> Inr \<lparr>decision = decision1, reason = r, images = images1\<rparr>
              | _ \<Rightarrow> Inl ValidationError))"

section \<open>ComfyUI: prompt injection\<close>

text \<open>
  A workflow is the value decoded from \<open>COMFYUI_WORKFLOW\<close> by \<open>json.loads\<close>; the code
  expects a dictionary from node id to node, a node being a dictionary with the keys
  \<open>_meta\<close> (with its \<open>title\<close>), \<open>inputs\<close> and \<open>class_type\<close>, but nothing checks that, so
  workflow and nodes are arbitrary decoded values and every operation on them can
  raise as it does in Python.

  \<open>node_data.get("_meta", {}).get("title", "").lower()\<close>: both \<open>get\<close> calls need a
  dictionary, and \<open>lower\<close> needs a string.
\<close>

definition node_title :: "(string \<Rightarrow> string) \<Rightarrow> json \<Rightarrow> error + string" where
  "node_title str_lower node_data =
     (case py_get node_data ''_meta'' (JObj []) of
        Inl e \<Rightarrow> Inl e
      | Inr meta \<Rightarrow>
          (case py_get meta ''title'' (JStr []) of
             Inl e \<Rightarrow> Inl e
           | Inr (JStr t) \<Rightarrow> Inr (str_lower t)
           | Inr _ \<Rightarrow> Inl AttributeError))"

text \<open>\<open>"inputs" in node_data and "text" in node_data["inputs"]\<close>.\<close>

definition has_text_input :: "json \<Rightarrow> error + bool" where
  "has_text_input node_data =
     (case py_contains node_data ''inputs'' of
        Inl e \<Rightarrow> Inl e
      | Inr False \<Rightarrow> Inr False
      | Inr True \<Rightarrow>
          (case py_getitem node_data ''inputs'' of
             Inl e \<Rightarrow> Inl e
           | Inr ins \<Rightarrow> py_contains ins ''text''))"

text \<open>The two nested tests of the loop body: the title, then the text input.\<close>

definition is_target :: "(string \<Rightarrow> string) \<Rightarrow> json \<Rightarrow> error + bool" where
  "is_target str_lower node_data =
     (case node_title str_lower node_data of
        Inl e \<Rightarrow> Inl e
      | Inr t \<Rightarrow> if t = ''input prompt'' then has_text_input node_data else Inr False)"

text \<open>
  \<open>node_data["inputs"]["text"] = prompt\<close>: an assignment to a key that is present keeps
  the key's position; it raises \<open>TypeError\<close> when the inputs are a list or a string.
\<close>

definition set_text :: "json \<Rightarrow> string \<Rightarrow> error + json" where
  "set_text node_data prompt_str =
     (case py_getitem node_data ''inputs'' of
        Inl e \<Rightarrow> Inl e
      | Inr (JObj ins) \<Rightarrow>
          (case node_data of
             JObj node_items \<Rightarrow>
               Inr (JObj (AList.update ''inputs''
                            (JObj (AList.update ''text'' (JStr prompt_str) ins)) node_items))
           | _ \<Rightarrow> Inl TypeError)
      | Inr _ \<Rightarrow> Inl TypeError)"

text \<open>
  The loop over \<open>workflow.items()\<close>: the first node that has the title and a text input
  is written and the workflow returned; an exception raised on the way leaves the
  function; when the loop ends, \<open>ValueError\<close> is raised (\<open>ConfigurationError\<close> here).
\<close>

fun inject_items ::
  "(string \<Rightarrow> string) \<Rightarrow> (string \<times> json) list \<Rightarrow> string \<Rightarrow> error + (string \<times> json) list" where
  "inject_items str_lower [] prompt_str = Inl ConfigurationError"
| "inject_items str_lower ((node_id, node_data) # rest) prompt_str =
     (case is_target str_lower node_data of
        Inl e \<Rightarrow> Inl e
      | Inr True \<Rightarrow>
          (case set_text node_data prompt_str of
             Inl e \<Rightarrow> Inl e
           | Inr written \<Rightarrow> Inr ((node_id, written) # rest))
      | Inr False \<Rightarrow>
          (case inject_items str_lower rest prompt_str of
             Inl e \<Rightarrow> Inl e
           | Inr rest' \<Rightarrow> Inr ((node_id, node_data) # rest')))"

text \<open>\<open>workflow.items()\<close> needs a dictionary.\<close>

definition inject_prompt_into_workflow ::
  "(string \<Rightarrow> string) \<Rightarrow> json \<Rightarrow> string \<Rightarrow> error + json" where
  "inject_prompt_into_workflow str_lower workflow prompt_str =
     (case workflow of
        JObj items \<Rightarrow>
          (case inject_items str_lower items prompt_str of
             Inl e \<Rightarrow> Inl e
           | Inr items' \<Rightarrow> Inr (JObj items'))
      | _ \<Rightarrow> Inl AttributeError)"

text \<open>
  The shape of a node that the loop reads without raising: a dictionary whose \<open>_meta\<close>,
  when present, is a dictionary whose \<open>title\<close>, when present, is a string. The shape is
  the declared title (the empty string when there is none) and the inputs, if any.
\<close>

definition node_shape :: "json \<Rightarrow> (string \<times> json option) option" where
  "node_shape node_data =
     (case node_data of
        JObj node_items \<Rightarrow>
          (case map_of node_items ''_meta'' of
             None \<Rightarrow> Some ([], map_of node_items ''inputs'')
           | Some (JObj m) \<Rightarrow>
               (case map_of m ''title'' of
                  None \<Rightarrow> Some ([], map_of node_items ''inputs'')
                | Some (JStr t) \<Rightarrow> Some (t, map_of node_items ''inputs'')
                | Some _ \<Rightarrow> None)
           | Some _ \<Rightarrow> None)
      | _ \<Rightarrow> None)"

text \<open>
  A well-formed node has that shape, and when its title is "Input Prompt" (ignoring
  case) its inputs, if any, are a dictionary.
\<close>

definition well_formed_node :: "(string \<Rightarrow> string) \<Rightarrow> json \<Rightarrow> bool" where
  "well_formed_node str_lower node_data =
     (case node_shape node_data of
        None \<Rightarrow> False
      | Some (t, ins) \<Rightarrow>
          (if str_lower t = ''input prompt''
           then (case ins of None \<Rightarrow> True | Some (JObj i) \<Rightarrow> True | Some _ \<Rightarrow> False)
           else True))"

text \<open>
  The claim's words, completed: a node whose declared title is "Input Prompt", ignoring
  case, and whose inputs are a dictionary with the key \<open>text\<close>.
\<close>

definition titled_with_text :: "(string \<Rightarrow> string) \<Rightarrow> json \<Rightarrow> bool" where
  "titled_with_text str_lower node_data =
     (case node_shape node_data of
        None \<Rightarrow> False
      | Some (t, ins) \<Rightarrow>
          (str_lower t = ''input prompt'' \<and>
           (case ins of Some (JObj i) \<Rightarrow> map_of i ''text'' \<noteq> None | _ \<Rightarrow> False)))"

text \<open>
  Three sample nodes: a sampler, a prompt node, and a node with the title but no text
  input.
\<close>

definition sampler_node :: json where
  "sampler_node =
     JObj [(''class_type'', JStr ''KSampler''),
           (''_meta'', JObj [(''title'', JStr ''KSampler'')]),
           (''inputs'', JObj [(''seed'', JInt 42), (''steps'', JInt 20)])]"

definition prompt_node :: json where
  "prompt_node =
     JObj [(''class_type'', JStr ''CLIPTextEncode''),
           (''_meta'', JObj [(''title'', JStr ''INPUT Prompt'')]),
           (''inputs'', JObj [(''text'', JStr ''a cat''), (''clip'', JArr [JStr ''4'', JInt 1])])]"

definition titled_node_without_text :: json where
  "titled_node_without_text =
     JObj [(''class_type'', JStr ''PrimitiveNode''),
           (''_meta'', JObj [(''title'', JStr ''Input Prompt'')]),
           (''inputs'', JObj [(''value'', JStr ''a cat'')])]"

section \<open>ComfyUI: the job poller \<open>_wait_for_comfyui_completion\<close>\<close>

text \<open>
  One poll: \<open>session.get\<close> raises (the exception, given by its message, leaves the
  poller: the call stands in no \<open>try\<close> block), or answers with an HTTP status and a
  body that \<open>response.json()\<close> decodes (\<open>None\<close> when decoding raises). The decoded body
  is an arbitrary value: the code expects a dictionary from prompt id to execution
  data, with a \<open>status\<close> dictionary (keys \<open>completed\<close> and \<open>error\<close>) and an \<open>outputs\<close>
  dictionary, but nothing checks that.
\<close>

datatype poll_outcome =
    GetRaises string
  | Answer nat "json option"

datatype 'a step = Continue | Return 'a | Raise error

text \<open>
  The two tests on the status: \<open>status.get("completed", False)\<close>, tested for truth,
  then \<open>"error" in status\<close>, which raises with \<open>status['error']\<close> in the message.
\<close>

definition check_status :: "json \<Rightarrow> json \<Rightarrow> json step" where
  "check_status status_data st =
     (case py_get st ''completed'' (JBool False) of
        Inl e \<Rightarrow> Raise e
      | Inr flag \<Rightarrow>
          (if truthy flag then Return status_data
           else (case py_contains st ''error'' of
                   Inl e \<Rightarrow> Raise e
                 | Inr False \<Rightarrow> Continue
                 | Inr True \<Rightarrow>
                     (case py_getitem st ''error'' of
                        Inl e \<Rightarrow> Raise e
                      | Inr err \<Rightarrow> Raise (ExecutionError err)))))"

text \<open>\<open>"outputs" in execution_data and execution_data["outputs"]\<close>, tested for truth.\<close>

definition check_outputs :: "json \<Rightarrow> json \<Rightarrow> json step" where
  "check_outputs status_data execution_data =
     (case py_contains execution_data ''outputs'' of
        Inl e \<Rightarrow> Raise e
      | Inr False \<Rightarrow> Continue
      | Inr True \<Rightarrow>
          (case py_getitem execution_data ''outputs'' of
             Inl e \<Rightarrow> Raise e
           | Inr outs \<Rightarrow> (if truthy outs then Return status_data else Continue)))"

text \<open>
  The part under \<open>if prompt_id in status_data\<close>: the status, when there is one, is
  looked at first, and the outputs only when the status has neither returned nor
  raised.
\<close>

definition check_execution :: "json \<Rightarrow> json \<Rightarrow> json step" where
  "check_execution status_data execution_data =
     (case py_contains execution_data ''status'' of
        Inl e \<Rightarrow> Raise e
      | Inr False \<Rightarrow> check_outputs status_data execution_data
      | Inr True \<Rightarrow>
          (case py_getitem execution_data ''status'' of
             Inl e \<Rightarrow> Raise e
           | Inr st \<Rightarrow>
               (case check_status status_data st of
                  Continue \<Rightarrow> check_outputs status_data execution_data
                | Return d \<Rightarrow> Return d
                | Raise e \<Rightarrow> Raise e)))"

text \<open>One pass of the loop body after the sleep, from the request to the end of the body.\<close>

definition poll_step :: "string \<Rightarrow> poll_outcome \<Rightarrow> json step" where
  "poll_step prompt_id outcome =
     (case outcome of
        GetRaises message \<Rightarrow> Raise (Raised message)
      | Answer http_status body \<Rightarrow>
          (if http_status \<noteq> 200 then Continue
           else (case body of
                   None \<Rightarrow> Continue
                 | Some status_data \<Rightarrow>
                     (case py_contains status_data prompt_id of
                        Inl e \<Rightarrow> Raise e
                      | Inr False \<Rightarrow> Continue
                      | Inr True \<Rightarrow>
                          (case py_getitem status_data prompt_id of
                             Inl e \<Rightarrow> Raise e
                           | Inr execution_data \<Rightarrow>
                               check_execution status_data execution_data)))))"

text \<open>
  Time is read from the event loop's monotonic clock. \<open>elapsed\<close> is the value computed
  at the top of a pass; the pass then sleeps \<open>poll_interval\<close> and polls, which takes
  \<open>poll_interval + overrun env i\<close> in pass \<open>i\<close> (the overrun is the lateness of the
  wake-up plus the duration of the request). \<open>polls env i\<close> is the outcome of the
  request of pass \<open>i\<close>.

  The loop has no bound of its own, so it is a partial function: \<open>None\<close> is a run that
  never returns. A result is paired with the value of \<open>elapsed\<close> of the pass that
  produced it. The code raises \<open>Exception\<close> with the message "ComfyUI workflow timed
  out after \<open>timeout\<close> seconds" (\<open>TimeoutError timeout\<close> here) and with the message
  "ComfyUI workflow error: ..." (\<open>ExecutionError\<close> here).
\<close>

record poll_env =
  first_elapsed :: real
  overrun :: "nat \<Rightarrow> real"
  polls :: "nat \<Rightarrow> poll_outcome"

partial_function (option) wait_loop ::
  "poll_env \<Rightarrow> string \<Rightarrow> int \<Rightarrow> int \<Rightarrow> real \<Rightarrow> nat \<Rightarrow> ((error + json) \<times> real) option" where
  "wait_loop env prompt_id timeout poll_interval elapsed i =
     (if elapsed > real_of_int timeout then Some (Inl (TimeoutError timeout), elapsed)
      else case poll_step prompt_id (polls env i) of
        Return status_data \<Rightarrow> Some (Inr status_data, elapsed)
      | Raise e \<Rightarrow> Some (Inl e, elapsed)
      | Continue \<Rightarrow>
          wait_loop env prompt_id timeout poll_interval
            (elapsed + real_of_int poll_interval + overrun env i) (Suc i))"

definition wait_for_comfyui_completion ::
  "poll_env \<Rightarrow> string \<Rightarrow> int \<Rightarrow> int \<Rightarrow> ((error + json) \<times> real) option" where
  "wait_for_comfyui_completion env prompt_id timeout poll_interval =
     wait_loop env prompt_id timeout poll_interval (first_elapsed env) 0"



text \<open>
  The value of \<open>elapsed\<close> at the top of pass \<open>n\<close>, when the loop gets there: the clock of
  the environment, read as the loop reads it.
\<close>

fun elapsed_at :: "poll_env \<Rightarrow> int \<Rightarrow> nat \<Rightarrow> real" where
  "elapsed_at env poll_interval 0 = first_elapsed env"
| "elapsed_at env poll_interval (Suc n) =
     elapsed_at env poll_interval n + real_of_int poll_interval + overrun env n"

text \<open>A returned body or a raised exception, as the step that produces it.\<close>

definition outcome_of :: "error + json \<Rightarrow> json step" where
  "outcome_of r = (case r of Inl e \<Rightarrow> Raise e | Inr d \<Rightarrow> Return d)"

text \<open>
  The claim's words: a sequence of polls that never reports completion, and no error
  either, in bodies of the expected shape. Each poll is answered, and the answer is
  not HTTP 200, or does not decode, or is a dictionary without an entry for the
  prompt id, or with an entry that is a dictionary and is not finished: its status,
  if any, is a dictionary with no true \<open>completed\<close> value and no \<open>error\<close> key, and its
  outputs, if any, are empty. \<open>flag_of\<close> is \<open>status.get("completed", False)\<close> on a
  dictionary.
\<close>

definition flag_of :: "(string \<times> json) list \<Rightarrow> json" where
  "flag_of st = (case map_of st ''completed'' of None \<Rightarrow> JBool False | Some flag \<Rightarrow> flag)"





text \<open>The clock assumption: a pass takes at least the sleep it asks for.\<close>

definition clock_advances :: "poll_env \<Rightarrow> bool" where
  "clock_advances env = (\<forall>i. 0 \<le> overrun env i)"

text \<open>
  Sample runs of the generation path: a prompt with a theme; a configuration with a
  generative provider (not a stock provider) and the agent configured; a configuration
  whose generation function raises and that has no agent; and an environment in which
  every search adapter fails and generation fails too.
\<close>

definition themed_prompt :: ImagePrompt where
  "themed_prompt =
     \<lparr>prompt = ''a red fox'', theme_prompt = Some ''watercolor style'', language = ''English''\<rparr>"

definition agent_config :: gen_config where
  "agent_config =
     \<lparr>is_image_generation_disabled = False,
      is_stock_provider_selected = False,
      image_gen_func = Some (\<lambda>image_prompt. Inr ''/app_data/images/fox.png''),
      openai_agent_url = Some ''http://agent:8000'',
      search_via_openai_agent = (\<lambda>query agent_url lang. [''https://example.org/fox.jpg'']),
      path_exists = (\<lambda>image_path. True)\<rparr>"

definition failing_gen_config :: gen_config where
  "failing_gen_config =
     \<lparr>is_image_generation_disabled = False,
      is_stock_provider_selected = False,
      image_gen_func = Some (\<lambda>image_prompt. Inl (Raised ''content policy violation'')),
      openai_agent_url = None,
      search_via_openai_agent = (\<lambda>query agent_url lang. []),
      path_exists = (\<lambda>image_path. False)\<rparr>"

definition failing_env :: adaptive_env where
  "failing_env =
     \<lparr>env_lower = lower_basic,
      env_json_loads = (\<lambda>s. None),
      env_llm = (\<lambda>q. Response ''no idea''),
      env_adapters = (\<lambda>query per_source. failing_results),
      env_gen = failing_gen_config\<rparr>"



definition sample_outputs :: json where
  "sample_outputs =
     JObj [(''9'', JObj [(''images'', JArr [JObj [(''filename'', JStr ''out_00001_.png''),
                                                  (''subfolder'', JStr []),
                                                  (''type'', JStr ''output'')]])])]"



definition answering :: "poll_outcome \<Rightarrow> poll_env" where
  "answering outcome = \<lparr>first_elapsed = 0, overrun = (\<lambda>i. 0), polls = (\<lambda>i. outcome)\<rparr>"

definition env_of :: "json \<Rightarrow> poll_env" where
  "env_of entry = answering (Answer 200 (Some (JObj [(''job-1'', entry)])))"

definition outputs_only_entry :: json where
  "outputs_only_entry = JObj [(''outputs'', sample_outputs)]"

definition outputs_and_error_entry :: json where
  "outputs_and_error_entry =
     JObj [(''status'', JObj [(''completed'', JBool False), (''error'', JStr ''out of memory'')]),
           (''outputs'', sample_outputs)]"

definition completed_and_error_entry :: json where
  "completed_and_error_entry =
     JObj [(''status'', JObj [(''completed'', JBool True), (''error'', JStr ''node 4 warning'')])]"

definition error_entry :: json where
  "error_entry = JObj [(''status'', JObj [(''error'', JStr ''out of memory'')])]"

definition outputs_and_null_status_entry :: json where
  "outputs_and_null_status_entry = JObj [(''status'', JNull), (''outputs'', sample_outputs)]"

section \<open>Properties of the classifier\<close>

lemma starts_with_iff: "starts_with s kw \<longleftrightarrow> (\<exists>post. s = kw @ post)"
  by (induction s kw rule: starts_with.induct) auto

text \<open>\<open>contains s kw\<close> is the substring relation.\<close>

lemma contains_iff: "contains s kw \<longleftrightarrow> (\<exists>pre post. s = pre @ kw @ post)"
proof (induction s)
  case Nil
  show ?case by auto
next
  case (Cons c cs)
  show ?case
  proof
    assume "contains (c # cs) kw"
    then consider "starts_with (c # cs) kw" | "contains cs kw" by auto
    then show "\<exists>pre post. c # cs = pre @ kw @ post"
    proof cases
      case 1
      then obtain post where "c # cs = kw @ post" using starts_with_iff by blast
      then have "c # cs = [] @ kw @ post" by simp
      then show ?thesis by blast
    next
      case 2
      then obtain pre post where "cs = pre @ kw @ post" using Cons.IH by blast
      then have "c # cs = (c # pre) @ kw @ post" by simp
      then show ?thesis by blast
    qed
  next
    assume "\<exists>pre post. c # cs = pre @ kw @ post"
    then obtain pre post where e: "c # cs = pre @ kw @ post" by blast
    show "contains (c # cs) kw"
    proof (cases pre)
      case Nil
      with e have "starts_with (c # cs) kw" using starts_with_iff by auto
      then show ?thesis by simp
    next
      case (Cons a pre')
      with e have "cs = pre' @ kw @ post" by simp
      then have "contains cs kw" using Cons.IH by blast
      then show ?thesis by simp
    qed
  qed
qed

text \<open>
  C1. Whenever a keyword of the fixed sets occurs as a substring of the lower-cased
  prompt (lower-cased by \<open>str.lower\<close>, whatever it does beyond ASCII),
  \<open>decide_image_source\<close> returns the decision "search", the language-model path is
  not entered (whatever the model would have answered), and the reason is the fixed
  prefix followed by the first matched terms, at least one and at most three, each of
  them a keyword that occurs in the lower-cased prompt.
\<close>

theorem keyword_gate_forces_search:
  assumes kw: "kw \<in> set all_search_keywords"
    and sub: "str_lower prompt_str = pre @ kw @ post"
  shows "\<exists>ms. returned (decide_image_source str_lower json_loads llm prompt_str) =
              Inr (''search'',
                   JStr (''Scientific/educational content detected: '' @ join '', '' ms))
            \<and> ms = take 3 (matched_keywords (str_lower prompt_str))
            \<and> ms \<noteq> [] \<and> length ms \<le> 3
            \<and> list_all (\<lambda>m. m \<in> set all_search_keywords \<and> contains (str_lower prompt_str) m) ms
            \<and> llm_calls (decide_image_source str_lower json_loads llm prompt_str) = []"
proof -
  let ?m = "matched_keywords (str_lower prompt_str)"
  have "contains (str_lower prompt_str) kw" using sub contains_iff by blast
  with kw have "kw \<in> set ?m" by (simp add: matched_keywords_def)
  then have ne: "?m \<noteq> []" by auto
  have all: "list_all (\<lambda>m. m \<in> set all_search_keywords \<and> contains (str_lower prompt_str) m)
               (take 3 ?m)"
    unfolding list_all_iff matched_keywords_def
    by (auto dest: in_set_takeD)
  from ne have "take 3 ?m \<noteq> []" by (cases ?m) auto
  with ne all show ?thesis
    by (simp add: decide_image_source_def Let_def)
qed

text \<open>
  The scenario of the specification: the prompt "Pendulum oscillation period" is
  classified as search, with a reason that names pendulum, oscillation and period.
  And the prompt "pendulum Kinetic" written with the Kelvin sign for its K: the sign
  lower-cases to \<open>k\<close>, so the reason names pendulum and kinetic.
\<close>

theorem keyword_gate_forces_search_witness:
  "returned (decide_image_source lower_basic (\<lambda>s. None) (\<lambda>q. Response ''generate'')
       ''Pendulum oscillation period'') =
     Inr (''search'',
          JStr ''Scientific/educational content detected: pendulum, oscillation, period'')
   \<and> llm_calls (decide_image_source lower_basic (\<lambda>s. None) (\<lambda>q. Response ''generate'')
       ''Pendulum oscillation period'') = []
   \<and> returned (decide_image_source lower_basic (\<lambda>s. None) (\<lambda>q. Response ''generate'')
       (''pendulum '' @ [CHR 0xE2, CHR 0x84, CHR 0xAA] @ ''inetic'')) =
     Inr (''search'', JStr ''Scientific/educational content detected: pendulum, kinetic'')"
proof -
  let ?kelvin = "''pendulum '' @ [CHR 0xE2, CHR 0x84, CHR 0xAA] @ ''inetic''"
  have k: "''pendulum'' \<in> set all_search_keywords"
    by code_simp
  have l: "lower_basic ''Pendulum oscillation period'' =
             [] @ ''pendulum'' @ '' oscillation period''"
    by code_simp
  have m: "take 3 (matched_keywords (lower_basic ''Pendulum oscillation period'')) =
             [''pendulum'', ''oscillation'', ''period'']"
    by code_simp
  have k2: "''kinetic'' \<in> set all_search_keywords"
    by code_simp
  have l2: "lower_basic ?kelvin = ''pendulum '' @ ''kinetic'' @ []"
    by code_simp
  have m2: "take 3 (matched_keywords (lower_basic ?kelvin)) = [''pendulum'', ''kinetic'']"
    by code_simp
  from keyword_gate_forces_search
         [where str_lower = lower_basic and prompt_str = "''Pendulum oscillation period''"
            and json_loads = "\<lambda>s. None" and llm = "\<lambda>q. Response ''generate''", OF k l]
  have first: "returned (decide_image_source lower_basic (\<lambda>s. None) (\<lambda>q. Response ''generate'')
       ''Pendulum oscillation period'') =
     Inr (''search'',
          JStr ''Scientific/educational content detected: pendulum, oscillation, period'')
   \<and> llm_calls (decide_image_source lower_basic (\<lambda>s. None) (\<lambda>q. Response ''generate'')
       ''Pendulum oscillation period'') = []"
    unfolding m by auto
  from keyword_gate_forces_search
         [where str_lower = lower_basic and prompt_str = ?kelvin
            and json_loads = "\<lambda>s. None" and llm = "\<lambda>q. Response ''generate''", OF k2 l2]
  have second: "returned (decide_image_source lower_basic (\<lambda>s. None) (\<lambda>q. Response ''generate'')
       ?kelvin) =
     Inr (''search'', JStr ''Scientific/educational content detected: pendulum, kinetic'')"
    unfolding m2 by auto
  from first second show ?thesis by blast
qed



section \<open>Properties of the aggregator\<close>

text \<open>Reading a list index by index, as the inner loop does, rebuilds its prefix.\<close>

lemma concat_nth_upt:
  "concat (map (\<lambda>i. if i < length xs then [xs ! i] else []) [0..<m]) = take m xs"
proof (induction m)
  case 0
  show ?case by simp
next
  case (Suc m)
  show ?case
  proof (cases "m < length xs")
    case True
    then show ?thesis using Suc by (simp add: take_Suc_conv_app_nth)
  next
    case False
    then show ?thesis using Suc by simp
  qed
qed

text \<open>\<open>max_len\<close> bounds the length of every list in \<open>by_source\<close>.\<close>

lemma fold_max_ge: "a \<le> fold max xs (a::nat)"
proof (induction xs arbitrary: a)
  case Nil
  show ?case by simp
next
  case (Cons x xs)
  have "a \<le> max x a" by simp
  also have "\<dots> \<le> fold max xs (max x a)" by (rule Cons.IH)
  finally show ?case by simp
qed

lemma fold_max_mem: "x \<in> set xs \<Longrightarrow> x \<le> fold max xs (a::nat)"
proof (induction xs arbitrary: a)
  case Nil
  then show ?case by simp
next
  case (Cons y ys)
  show ?case
  proof (cases "x = y")
    case True
    have "x \<le> max y a" using True by simp
    also have "\<dots> \<le> fold max ys (max y a)" by (rule fold_max_ge)
    finally show ?thesis by simp
  next
    case False
    with Cons.prems have "x \<in> set ys" by simp
    then show ?thesis using Cons.IH by simp
  qed
qed

lemma max_len_ge: "map_of by_source s = Some v \<Longrightarrow> length v \<le> max_len by_source"
proof -
  assume "map_of by_source s = Some v"
  then have "(s, v) \<in> set by_source" by (rule map_of_SomeD)
  then have "length v \<in> set (map (\<lambda>kv. length (snd kv)) by_source)" by force
  then show ?thesis unfolding max_len_def by (rule fold_max_mem)
qed

text \<open>
  The grouping loop builds, under each source, the sublist of the images of that
  source, in their order; a source without images is absent.
\<close>

lemma fold_group_step:
  "map_of acc = groups_of seen \<Longrightarrow>
   map_of (fold group_step imgs acc) = groups_of (seen @ imgs)"
proof (induction imgs arbitrary: acc seen)
  case Nil
  then show ?case by simp
next
  case (Cons img imgs)
  have "map_of (group_step img acc) = groups_of (seen @ [img])"
    using Cons.prems
    by (auto simp: group_step_def update_conv' groups_of_def fun_eq_iff)
  from Cons.IH [OF this] show ?case by simp
qed

lemma map_of_group_by_source: "map_of (group_by_source imgs) = groups_of imgs"
proof -
  have "map_of [] = groups_of []" by (simp add: groups_of_def fun_eq_iff)
  from fold_group_step [OF this, of imgs] show ?thesis
    by (simp add: group_by_source_def)
qed

text \<open>
  The interleaving, written with \<open>pick\<close>, and its sublist for one source: the images of
  that source in their order when the source is one of the four visited, nothing
  otherwise.
\<close>

lemma pick_groups_of:
  "(case groups_of imgs s of None \<Rightarrow> [] | Some v \<Rightarrow> if i < length v then [v ! i] else []) =
     pick imgs i s"
  by (simp add: groups_of_def pick_def)

lemma interleave_group:
  "interleave (group_by_source imgs) =
     concat (map (\<lambda>i. concat (map (pick imgs i) source_order))
                 [0..<max_len (group_by_source imgs)])"
  by (simp add: interleave_def map_of_group_by_source pick_groups_of)

lemma filter_concat_rows:
  "(\<And>i. filter P (f i) = g i) \<Longrightarrow> filter P (concat (map f ns)) = concat (map g ns)"
  by (induction ns) simp_all

lemma filter_pick:
  "filter (\<lambda>x. source x = s) (pick imgs i t) = (if t = s then pick imgs i s else [])"
proof (cases "i < length (filter (\<lambda>x. source x = t) imgs)")
  case True
  then have "filter (\<lambda>x. source x = t) imgs ! i \<in> set (filter (\<lambda>x. source x = t) imgs)"
    by (rule nth_mem)
  then have "source (filter (\<lambda>x. source x = t) imgs ! i) = t" by simp
  with True show ?thesis by (auto simp: pick_def)
next
  case False
  then show ?thesis by (auto simp: pick_def)
qed

lemma filter_row:
  "filter (\<lambda>x. source x = s) (concat (map (pick imgs i) source_order)) =
     (if s \<in> set source_order then pick imgs i s else [])"
  by (simp add: source_order_def filter_pick)

lemma group_length_le:
  "length (filter (\<lambda>x. source x = s) imgs) \<le> max_len (group_by_source imgs)"
proof (cases "filter (\<lambda>x. source x = s) imgs = []")
  case True
  then show ?thesis by simp
next
  case False
  then have "map_of (group_by_source imgs) s = Some (filter (\<lambda>x. source x = s) imgs)"
    by (simp add: map_of_group_by_source groups_of_def)
  then show ?thesis by (rule max_len_ge)
qed

lemma filter_interleave:
  "filter (\<lambda>x. source x = s) (interleave (group_by_source imgs)) =
     (if s \<in> set source_order then filter (\<lambda>x. source x = s) imgs else [])"
proof -
  let ?M = "max_len (group_by_source imgs)"
  let ?g = "filter (\<lambda>x. source x = s) imgs"
  have "filter (\<lambda>x. source x = s) (interleave (group_by_source imgs)) =
          concat (map (\<lambda>i. if s \<in> set source_order then pick imgs i s else []) [0..<?M])"
    unfolding interleave_group by (rule filter_concat_rows) (rule filter_row)
  also have "\<dots> = (if s \<in> set source_order then concat (map (\<lambda>i. pick imgs i s) [0..<?M]) else [])"
    by simp
  also have "concat (map (\<lambda>i. pick imgs i s) [0..<?M]) = take ?M ?g"
    unfolding pick_def by (rule concat_nth_upt)
  also have "take ?M ?g = ?g" using group_length_le by simp
  finally show ?thesis .
qed

text \<open>
  The candidates of an adapter carry its source, so the images of a source are the
  candidates of its adapter, and every collected image has one of the four sources.
\<close>

lemma filter_same_source:
  "list_all (\<lambda>x. source x = t) xs \<Longrightarrow>
   filter (\<lambda>x. source x = s) xs = (if s = t then xs else [])"
  by (induction xs) auto

lemma candidates_source:
  "own_sources results \<Longrightarrow> list_all (\<lambda>x. source x = adapter_source a) (candidates results a)"
  by (cases a)
     (auto simp: own_sources_def candidates_def adapter_source_def from_unsplash_def
        from_wikimedia_def list_all_iff split: sum.splits)

lemma collect_images_candidates:
  "collect_images results =
     candidates results Unsplash @ candidates results Wikimedia @
     candidates results Pexels @ candidates results Pixabay"
  by (simp add: collect_images_def candidates_def)

lemma filter_collect_images:
  assumes "own_sources results"
  shows "filter (\<lambda>x. source x = adapter_source a) (collect_images results) = candidates results a"
proof -
  have f: "filter (\<lambda>x. source x = adapter_source a) (candidates results c) =
             (if adapter_source a = adapter_source c then candidates results c else [])" for c
    using candidates_source [OF assms, of c] by (rule filter_same_source)
  show ?thesis
    unfolding collect_images_candidates filter_append f
    by (cases a) (simp_all add: adapter_source_def)
qed

lemma source_in_order:
  assumes "own_sources results" and "x \<in> set (collect_images results)"
  shows "source x \<in> set source_order"
proof -
  from assms(2) obtain a where "x \<in> set (candidates results a)"
    unfolding collect_images_candidates by auto
  with candidates_source [OF assms(1), of a] have "source x = adapter_source a"
    by (simp add: list_all_iff)
  then show ?thesis by (cases a) (simp_all add: adapter_source_def source_order_def)
qed

lemma filter_interleaved:
  assumes "own_sources results"
  shows "filter (\<lambda>x. source x = s) (interleaved results) =
         filter (\<lambda>x. source x = s) (collect_images results)"
proof (cases "s \<in> set source_order")
  case True
  then show ?thesis by (simp add: interleaved_def filter_interleave)
next
  case False
  with source_in_order [OF assms] have "\<forall>x \<in> set (collect_images results). source x \<noteq> s"
    by blast
  then have "filter (\<lambda>x. source x = s) (collect_images results) = []"
    by (simp add: filter_empty_conv)
  with False show ?thesis by (simp add: interleaved_def filter_interleave)
qed

lemma mset_by_source:
  assumes "\<And>s. filter (\<lambda>x. source x = s) xs = filter (\<lambda>x. source x = s) ys"
  shows "mset xs = mset ys"
proof (rule multiset_eqI)
  fix x
  have "count (mset xs) x = count (mset (filter (\<lambda>y. source y = source x) xs)) x"
    by simp
  also have "\<dots> = count (mset (filter (\<lambda>y. source y = source x) ys)) x"
    by (simp only: assms)
  also have "\<dots> = count (mset ys) x" by simp
  finally show "count (mset xs) x = count (mset ys) x" .
qed

text \<open>
  C10. When the two service-defined tasks label their candidates with their own source
  (as \<open>search_pexels_multiple\<close> and \<open>search_pixabay_multiple\<close> do), the interleaved
  list before truncation is a permutation of the candidates of the adapters that
  returned a list: nothing is dropped and nothing is duplicated. The candidates of one
  source appear in it in the order in which their adapter returned them.
\<close>

theorem interleaving_keeps_every_candidate:
  assumes "own_sources results"
  shows "mset (interleaved results) = mset (collect_images results)
       \<and> (\<forall>s. filter (\<lambda>x. source x = s) (interleaved results) =
               filter (\<lambda>x. source x = s) (collect_images results))
       \<and> (\<forall>a. filter (\<lambda>x. source x = adapter_source a) (interleaved results) =
               candidates results a)
       \<and> collect_images results = concat (map (candidates results) [Unsplash, Wikimedia, Pexels, Pixabay])"
proof -
  have f: "filter (\<lambda>x. source x = s) (interleaved results) =
           filter (\<lambda>x. source x = s) (collect_images results)" for s
    using assms by (rule filter_interleaved)
  have m: "mset (interleaved results) = mset (collect_images results)"
    by (rule mset_by_source) (rule f)
  have c: "filter (\<lambda>x. source x = adapter_source a) (interleaved results) = candidates results a" for a
    by (simp only: f filter_collect_images [OF assms])
  show ?thesis using f m c by (simp add: collect_images_candidates)
qed

text \<open>The interleaving as rounds over the adapters.\<close>

lemma pick_candidates:
  assumes "own_sources results"
  shows "pick (collect_images results) i (adapter_source a) =
           (if i < length (candidates results a) then [candidates results a ! i] else [])"
  by (simp add: pick_def filter_collect_images [OF assms])

lemma source_order_adapters: "source_order = map adapter_source adapter_order"
  by (simp add: source_order_def adapter_order_def adapter_source_def)

lemma interleaved_rows:
  assumes "own_sources results"
  shows "interleaved results =
           concat (map (row results) [0..<max_len (group_by_source (collect_images results))])"
  unfolding interleaved_def interleave_group source_order_adapters row_def
  by (simp add: comp_def pick_candidates [OF assms])

lemma max_len_candidates:
  assumes "own_sources results"
  shows "length (candidates results a) \<le> max_len (group_by_source (collect_images results))"
  using group_length_le [of "adapter_source a" "collect_images results"]
  by (simp add: filter_collect_images [OF assms])

text \<open>
  C9. When adapter \<open>A\<close> returns five candidates, another adapter \<open>B\<close> returns one and
  the remaining adapters return nothing (or raise), the candidate of \<open>B\<close> is among the
  first two entries of the list that \<open>search_multiple_sources\<close> returns.
\<close>

theorem interleaving_is_fair:
  assumes own: "own_sources (adapters query per_source)"
    and ab: "A \<noteq> B"
    and la: "length (candidates (adapters query per_source) A) = 5"
    and lb: "candidates (adapters query per_source) B = [b]"
    and others: "\<forall>C. C \<noteq> A \<and> C \<noteq> B \<longrightarrow> candidates (adapters query per_source) C = []"
  shows "b \<in> set (take 2 (search_multiple_sources adapters query per_source))"
proof -
  let ?r = "adapters query per_source"
  let ?M = "max_len (group_by_source (collect_images ?r))"
  from max_len_candidates [OF own, of A] la have "0 < ?M" by simp
  then have "[0..<?M] = 0 # [Suc 0..<?M]" by (simp add: upt_conv_Cons)
  then have split: "interleaved ?r = row ?r 0 @ concat (map (row ?r) [Suc 0..<?M])"
    by (simp add: interleaved_rows [OF own])
  from la obtain a0 as where a: "candidates ?r A = a0 # as"
    by (cases "candidates ?r A") auto
  have r0: "row ?r 0 = [a0, b] \<or> row ?r 0 = [b, a0]"
  proof (cases A; cases B)
  qed (use ab a lb others in \<open>auto simp: row_def adapter_order_def\<close>)
  then show ?thesis
    unfolding search_multiple_sources_def split by auto
qed

text \<open>The sample results, and the tasks of the service, satisfy the assumption on sources.\<close>

lemma sample_results_own_sources: "own_sources sample_results"
  by (simp add: own_sources_def sample_results_def)

lemma search_pexels_multiple_source:
  "list_all (\<lambda>img. source img = ''pexels'') (search_pexels_multiple api_key fetched)"
  by (auto simp: search_pexels_multiple_def list_all_iff split: sum.splits)

lemma search_pixabay_multiple_source:
  "list_all (\<lambda>img. source img = ''pixabay'') (search_pixabay_multiple api_key fetched)"
  by (auto simp: search_pixabay_multiple_def list_all_iff split: sum.splits)

text \<open>
  With the tasks of the service in the third and fourth place, the assumption on the
  sources holds whatever the four tasks do.
\<close>

lemma own_sources_of_service_tasks:
  "own_sources \<lparr>unsplash_result = u, wikimedia_result = w,
                 pexels_result = Inr (search_pexels_multiple k1 f1),
                 pixabay_result = Inr (search_pixabay_multiple k2 f2)\<rparr>"
  by (simp add: own_sources_def search_pexels_multiple_source search_pixabay_multiple_source)

theorem interleaving_keeps_every_candidate_witness:
  "mset (interleaved sample_results) = mset (collect_images sample_results)
   \<and> (\<forall>s. filter (\<lambda>x. source x = s) (interleaved sample_results) =
           filter (\<lambda>x. source x = s) (collect_images sample_results))
   \<and> (\<forall>a. filter (\<lambda>x. source x = adapter_source a) (interleaved sample_results) =
           candidates sample_results a)
   \<and> collect_images sample_results =
       concat (map (candidates sample_results) [Unsplash, Wikimedia, Pexels, Pixabay])"
  using interleaving_keeps_every_candidate [OF sample_results_own_sources] .

theorem interleaving_is_fair_witness:
  "from_wikimedia (sample_wikimedia ''w1'') \<in>
     set (take 2 (search_multiple_sources (\<lambda>q n. sample_results) ''red fox'' 2))"
proof -
  have la: "length (candidates sample_results Unsplash) = 5"
    by (simp add: candidates_def sample_results_def)
  have lb: "candidates sample_results Wikimedia = [from_wikimedia (sample_wikimedia ''w1'')]"
    by (simp add: candidates_def sample_results_def)
  have others: "\<forall>C. C \<noteq> Unsplash \<and> C \<noteq> Wikimedia \<longrightarrow> candidates sample_results C = []"
  proof (intro allI impI)
    fix C assume "C \<noteq> Unsplash \<and> C \<noteq> Wikimedia"
    then show "candidates sample_results C = []"
      by (cases C) (simp_all add: candidates_def sample_results_def)
  qed
  have ab: "Unsplash \<noteq> Wikimedia" by simp
  show ?thesis
    using interleaving_is_fair [of "\<lambda>q n. sample_results" "''red fox''" 2 Unsplash Wikimedia,
            OF sample_results_own_sources ab la lb others] .
qed

text \<open>A raised exception and an empty list contribute the same: nothing.\<close>

lemma collect_images_raising_as_empty:
  "collect_images (raising_as_empty results) = collect_images results"
  by (simp add: collect_images_def raising_as_empty_def as_empty_def split: sum.splits)

lemma interleave_nothing: "interleave (group_by_source []) = []"
  by (simp add: interleave_def group_by_source_def max_len_def)

text \<open>
  Round 0 of the interleaving holds the first candidate of every adapter that
  returned any, and at most four entries, so the cut at ten keeps all of it.
\<close>

lemma row_length: "length (row results i) \<le> 4"
  by (simp add: row_def adapter_order_def)

lemma first_candidate_in_row:
  "candidates results a \<noteq> [] \<Longrightarrow> hd (candidates results a) \<in> set (row results 0)"
  by (cases a) (simp_all add: row_def adapter_order_def hd_conv_nth)

lemma first_candidates_kept:
  assumes own: "own_sources (adapters query per_source)"
    and ne: "candidates (adapters query per_source) a \<noteq> []"
  shows "hd (candidates (adapters query per_source) a)
           \<in> set (search_multiple_sources adapters query per_source)"
proof -
  let ?r = "adapters query per_source"
  let ?M = "max_len (group_by_source (collect_images ?r))"
  from max_len_candidates [OF own, of a] ne have "0 < ?M" by (cases "candidates ?r a") auto
  then have "[0..<?M] = 0 # [Suc 0..<?M]" by (simp add: upt_conv_Cons)
  then have split: "interleaved ?r = row ?r 0 @ concat (map (row ?r) [Suc 0..<?M])"
    by (simp add: interleaved_rows [OF own])
  have "length (row ?r 0) \<le> 10" using row_length [of ?r 0] by simp
  then have "set (row ?r 0) \<subseteq> set (take 10 (interleaved ?r))"
    unfolding split by simp
  with first_candidate_in_row [OF ne] show ?thesis
    by (auto simp: search_multiple_sources_def)
qed

text \<open>
  C5, as amended. An adapter that raises is read as an adapter that returned the empty list: the
  result of \<open>search_multiple_sources\<close> is the one it has when every raised exception is
  replaced by an empty list. When every adapter raises or returns nothing the result
  is the empty list. The candidates of the adapters that returned a list are all in
  the result, as long as there are at most ten of them (the result is cut at ten); in
  any case the first candidate of every adapter that returned some is in the result.
  The function has no raising path: its value is a list for every outcome of the tasks.
\<close>

theorem raising_adapter_is_isolated:
  "search_multiple_sources adapters query per_source =
     search_multiple_sources (\<lambda>q n. raising_as_empty (adapters q n)) query per_source
   \<and> ((\<forall>a. candidates (adapters query per_source) a = []) \<longrightarrow>
        search_multiple_sources adapters query per_source = [])
   \<and> (own_sources (adapters query per_source)
        \<and> length (collect_images (adapters query per_source)) \<le> 10 \<longrightarrow>
        (\<forall>a. set (candidates (adapters query per_source) a)
               \<subseteq> set (search_multiple_sources adapters query per_source)))
   \<and> (own_sources (adapters query per_source)
        \<and> candidates (adapters query per_source) a \<noteq> [] \<longrightarrow>
        hd (candidates (adapters query per_source) a)
          \<in> set (search_multiple_sources adapters query per_source))"
proof (intro conjI impI)
  show "search_multiple_sources adapters query per_source =
     search_multiple_sources (\<lambda>q n. raising_as_empty (adapters q n)) query per_source"
    by (simp add: search_multiple_sources_def interleaved_def collect_images_raising_as_empty)
next
  assume "\<forall>a. candidates (adapters query per_source) a = []"
  then have "collect_images (adapters query per_source) = []"
    by (simp add: collect_images_candidates)
  then show "search_multiple_sources adapters query per_source = []"
    by (simp add: search_multiple_sources_def interleaved_def interleave_nothing)
next
  let ?r = "adapters query per_source"
  assume h: "own_sources ?r \<and> length (collect_images ?r) \<le> 10"
  then have m: "mset (interleaved ?r) = mset (collect_images ?r)"
    using filter_interleaved [of ?r] by (intro mset_by_source) simp
  from m have "length (interleaved ?r) = length (collect_images ?r)"
    by (rule mset_eq_length)
  with h have t: "take 10 (interleaved ?r) = interleaved ?r" by simp
  from m have "set (interleaved ?r) = set (collect_images ?r)"
    by (rule mset_eq_setD)
  then show "\<forall>a. set (candidates ?r a) \<subseteq> set (search_multiple_sources adapters query per_source)"
    unfolding search_multiple_sources_def t collect_images_candidates
    by (intro allI, case_tac a) auto
next
  assume "own_sources (adapters query per_source)
        \<and> candidates (adapters query per_source) a \<noteq> []"
  then show "hd (candidates (adapters query per_source) a)
          \<in> set (search_multiple_sources adapters query per_source)"
    by (simp add: first_candidates_kept)
qed

text \<open>
  Two instances: every adapter fails or is empty; and Unsplash returns five, Wikimedia
  one, Pexels raises, Pixabay returns nothing.
\<close>

theorem raising_adapter_is_isolated_witness:
  "search_multiple_sources (\<lambda>q n. failing_results) ''xyzxyz-nonsense'' 2 = []
   \<and> set (candidates sample_results Wikimedia)
        \<subseteq> set (search_multiple_sources (\<lambda>q n. sample_results) ''red fox'' 2)
   \<and> candidates sample_results Pexels = []
   \<and> from_wikimedia (sample_wikimedia ''w1'')
        \<in> set (search_multiple_sources (\<lambda>q n. sample_results) ''red fox'' 2)"
proof -
  have e: "\<forall>a. candidates failing_results a = []"
  proof
    fix a show "candidates failing_results a = []"
      by (cases a) (simp_all add: candidates_def failing_results_def)
  qed
  have l: "length (collect_images sample_results) \<le> 10"
    by (simp add: collect_images_def sample_results_def)
  have p: "candidates sample_results Pexels = []"
    by (simp add: candidates_def sample_results_def)
  from raising_adapter_is_isolated [of "\<lambda>q n. failing_results" "''xyzxyz-nonsense''" 2] e
  have first: "search_multiple_sources (\<lambda>q n. failing_results) ''xyzxyz-nonsense'' 2 = []"
    by blast
  from raising_adapter_is_isolated [of "\<lambda>q n. sample_results" "''red fox''" 2]
    sample_results_own_sources l
  have "\<forall>a. set (candidates sample_results a)
               \<subseteq> set (search_multiple_sources (\<lambda>q n. sample_results) ''red fox'' 2)"
    by blast
  have w: "candidates sample_results Wikimedia = [from_wikimedia (sample_wikimedia ''w1'')]"
    by (simp add: candidates_def sample_results_def)
  from raising_adapter_is_isolated
         [of "\<lambda>q n. sample_results" "''red fox''" 2 Wikimedia] sample_results_own_sources w
  have kept: "from_wikimedia (sample_wikimedia ''w1'')
        \<in> set (search_multiple_sources (\<lambda>q n. sample_results) ''red fox'' 2)"
    by auto
  from first p kept \<open>\<forall>a. set (candidates sample_results a)
               \<subseteq> set (search_multiple_sources (\<lambda>q n. sample_results) ''red fox'' 2)\<close>
  show ?thesis by blast
qed

text \<open>
  C5 as stated fails: with one adapter raising and three returning four candidates
  each, the result is cut at ten and the fourth candidates of Wikimedia and of Pixabay
  are not in it, although their adapters returned them.
\<close>

theorem truncation_drops_candidates_counterexample:
  "from_wikimedia (sample_wikimedia ''w4'') \<in> set (candidates crowded_results Wikimedia)
   \<and> from_wikimedia (sample_wikimedia ''w4'')
        \<notin> set (search_multiple_sources (\<lambda>q n. crowded_results) ''red fox'' 4)
   \<and> length (candidates crowded_results Pixabay) = 4
   \<and> last (candidates crowded_results Pixabay) \<in> set (candidates crowded_results Pixabay)
   \<and> last (candidates crowded_results Pixabay)
        \<notin> set (search_multiple_sources (\<lambda>q n. crowded_results) ''red fox'' 4)
   \<and> length (search_multiple_sources (\<lambda>q n. crowded_results) ''red fox'' 4) = 10
   \<and> length (collect_images crowded_results) = 12"
  by code_simp

section \<open>Properties of prompt injection\<close>

text \<open>
  On a well-formed node the two tests of the loop body do not raise, and they hold
  exactly of a node that has the title and a text input. Writing such a node changes
  the value under \<open>text\<close> in its inputs and nothing else.
\<close>

lemma well_formed_is_target:
  "well_formed_node str_lower nd \<Longrightarrow> is_target str_lower nd = Inr (titled_with_text str_lower nd)"
  by (auto simp: well_formed_node_def titled_with_text_def node_shape_def is_target_def
        node_title_def has_text_input_def py_get_def py_contains_def py_getitem_def
      split: json.splits option.splits if_splits)

lemma titled_with_text_set_text:
  "titled_with_text str_lower nd \<Longrightarrow>
   \<exists>ob ins. nd = JObj ob \<and> map_of ob ''inputs'' = Some (JObj ins) \<and> map_of ins ''text'' \<noteq> None
     \<and> set_text nd prompt_str =
         Inr (JObj (AList.update ''inputs'' (JObj (AList.update ''text'' (JStr prompt_str) ins)) ob))"
  by (auto simp: titled_with_text_def node_shape_def set_text_def py_getitem_def
      split: json.splits option.splits if_splits)

lemma inject_items_none:
  "list_all (\<lambda>it. well_formed_node str_lower (snd it) \<and> \<not> titled_with_text str_lower (snd it)) items
   \<Longrightarrow> inject_items str_lower items prompt_str = Inl ConfigurationError"
  by (induction items) (auto simp: well_formed_is_target)

lemma inject_items_first:
  assumes "list_all (\<lambda>it. well_formed_node str_lower (snd it) \<and> \<not> titled_with_text str_lower (snd it)) pre"
    and "is_target str_lower nd = Inr True"
    and "set_text nd prompt_str = Inr written"
  shows "inject_items str_lower (pre @ (node_id, nd) # post) prompt_str =
           Inr (pre @ (node_id, written) # post)"
  using assms by (induction pre) (auto simp: well_formed_is_target)

lemma split_first:
  "\<not> list_all (\<lambda>x. \<not> P x) xs \<Longrightarrow>
   \<exists>pre x post. xs = pre @ x # post \<and> list_all (\<lambda>x. \<not> P x) pre \<and> P x"
proof (induction xs)
  case Nil
  then show ?case by simp
next
  case (Cons a xs)
  show ?case
  proof (cases "P a")
    case True
    then have "a # xs = [] @ a # xs \<and> list_all (\<lambda>x. \<not> P x) [] \<and> P a" by simp
    then show ?thesis by blast
  next
    case False
    with Cons.prems have "\<not> list_all (\<lambda>x. \<not> P x) xs" by simp
    from Cons.IH [OF this] obtain pre x post where
      "xs = pre @ x # post" "list_all (\<lambda>x. \<not> P x) pre" "P x" by blast
    with False have "a # xs = (a # pre) @ x # post \<and> list_all (\<lambda>x. \<not> P x) (a # pre) \<and> P x"
      by simp
    then show ?thesis by blast
  qed
qed

text \<open>
  C8, as amended. On a workflow that is a dictionary of well-formed nodes, injection
  fails, with \<open>ConfigurationError\<close> only, exactly when no node has both the title
  "Input Prompt" (ignoring case) and a text input. When the nodes before the first
  such node are well-formed, that node is the only thing that changes: its text input
  becomes the prompt, its other inputs, the order of its keys, its class and title
  stay, and so does every other node, whatever the nodes after it are.
\<close>

theorem inject_prompt_first_text_node:
  "(list_all (\<lambda>it. well_formed_node str_lower (snd it)) items \<longrightarrow>
      ((\<exists>e. inject_prompt_into_workflow str_lower (JObj items) prompt_str = Inl e) =
         list_all (\<lambda>it. \<not> titled_with_text str_lower (snd it)) items)
      \<and> (\<forall>e. inject_prompt_into_workflow str_lower (JObj items) prompt_str = Inl e \<longrightarrow>
               e = ConfigurationError))
   \<and> (items = pre @ (node_id, nd) # post
        \<and> list_all (\<lambda>it. well_formed_node str_lower (snd it)
                          \<and> \<not> titled_with_text str_lower (snd it)) pre
        \<and> titled_with_text str_lower nd \<longrightarrow>
        (\<exists>ob ins. nd = JObj ob \<and> map_of ob ''inputs'' = Some (JObj ins)
           \<and> inject_prompt_into_workflow str_lower (JObj items) prompt_str =
               Inr (JObj (pre @ (node_id,
                      JObj (AList.update ''inputs''
                              (JObj (AList.update ''text'' (JStr prompt_str) ins)) ob)) # post))
           \<and> map fst (AList.update ''text'' (JStr prompt_str) ins) = map fst ins
           \<and> map_of (AList.update ''text'' (JStr prompt_str) ins) =
               (map_of ins)(''text'' \<mapsto> JStr prompt_str)
           \<and> map fst (AList.update ''inputs''
                         (JObj (AList.update ''text'' (JStr prompt_str) ins)) ob) = map fst ob
           \<and> map_of (AList.update ''inputs''
                        (JObj (AList.update ''text'' (JStr prompt_str) ins)) ob) =
               (map_of ob)(''inputs'' \<mapsto> JObj (AList.update ''text'' (JStr prompt_str) ins))))"
proof (intro conjI impI)
  have first: "\<exists>ob ins. nd = JObj ob \<and> map_of ob ''inputs'' = Some (JObj ins)
           \<and> inject_prompt_into_workflow str_lower (JObj (pre @ (node_id, nd) # post)) prompt_str =
               Inr (JObj (pre @ (node_id,
                      JObj (AList.update ''inputs''
                              (JObj (AList.update ''text'' (JStr prompt_str) ins)) ob)) # post))
           \<and> map fst (AList.update ''text'' (JStr prompt_str) ins) = map fst ins
           \<and> map_of (AList.update ''text'' (JStr prompt_str) ins) =
               (map_of ins)(''text'' \<mapsto> JStr prompt_str)
           \<and> map fst (AList.update ''inputs''
                         (JObj (AList.update ''text'' (JStr prompt_str) ins)) ob) = map fst ob
           \<and> map_of (AList.update ''inputs''
                        (JObj (AList.update ''text'' (JStr prompt_str) ins)) ob) =
               (map_of ob)(''inputs'' \<mapsto> JObj (AList.update ''text'' (JStr prompt_str) ins))"
    if pre: "list_all (\<lambda>it. well_formed_node str_lower (snd it)
                          \<and> \<not> titled_with_text str_lower (snd it)) pre"
      and t: "titled_with_text str_lower nd"
    for pre node_id nd post
  proof -
    from titled_with_text_set_text [OF t, of prompt_str] obtain ob ins where
      nd: "nd = JObj ob" and i: "map_of ob ''inputs'' = Some (JObj ins)"
      and x: "map_of ins ''text'' \<noteq> None"
      and w: "set_text nd prompt_str =
         Inr (JObj (AList.update ''inputs'' (JObj (AList.update ''text'' (JStr prompt_str) ins)) ob))"
      by blast
    from t have "well_formed_node str_lower nd"
      by (auto simp: titled_with_text_def well_formed_node_def split: option.splits json.splits)
    with t have tg: "is_target str_lower nd = Inr True" by (simp add: well_formed_is_target)
    from x have k1: "''text'' \<in> fst ` set ins" by (simp add: map_of_eq_None_iff)
    from i have k2: "''inputs'' \<in> fst ` set ob" by (metis map_of_eq_None_iff option.distinct(1))
    from inject_items_first [OF pre tg w, of node_id post] nd i k1 k2 show ?thesis
      by (simp add: inject_prompt_into_workflow_def update_keys update_conv')
  qed
  {
    assume wf: "list_all (\<lambda>it. well_formed_node str_lower (snd it)) items"
    show "(\<exists>e. inject_prompt_into_workflow str_lower (JObj items) prompt_str = Inl e) =
         list_all (\<lambda>it. \<not> titled_with_text str_lower (snd it)) items"
    proof (cases "list_all (\<lambda>it. \<not> titled_with_text str_lower (snd it)) items")
      case True
      with wf have "list_all (\<lambda>it. well_formed_node str_lower (snd it)
                          \<and> \<not> titled_with_text str_lower (snd it)) items"
        by (simp add: list_all_iff)
      from inject_items_none [OF this] True show ?thesis
        by (simp add: inject_prompt_into_workflow_def)
    next
      case False
      from split_first [OF False] obtain pre x post where
        sp: "items = pre @ x # post"
        and p: "list_all (\<lambda>it. \<not> titled_with_text str_lower (snd it)) pre"
        and t: "titled_with_text str_lower (snd x)" by blast
      from wf sp p have "list_all (\<lambda>it. well_formed_node str_lower (snd it)
                          \<and> \<not> titled_with_text str_lower (snd it)) pre"
        by (simp add: list_all_iff)
      from first [OF this t, of "fst x" post] sp False show ?thesis by auto
    qed
    then show "\<forall>e. inject_prompt_into_workflow str_lower (JObj items) prompt_str = Inl e \<longrightarrow>
               e = ConfigurationError"
      using wf inject_items_none [of str_lower items prompt_str]
      by (auto simp: inject_prompt_into_workflow_def list_all_iff split: sum.splits)
  }
  assume "items = pre @ (node_id, nd) # post
        \<and> list_all (\<lambda>it. well_formed_node str_lower (snd it)
                          \<and> \<not> titled_with_text str_lower (snd it)) pre
        \<and> titled_with_text str_lower nd"
  with first [of pre nd node_id post] show "\<exists>ob ins. nd = JObj ob \<and> map_of ob ''inputs'' = Some (JObj ins)
           \<and> inject_prompt_into_workflow str_lower (JObj items) prompt_str =
               Inr (JObj (pre @ (node_id,
                      JObj (AList.update ''inputs''
                              (JObj (AList.update ''text'' (JStr prompt_str) ins)) ob)) # post))
           \<and> map fst (AList.update ''text'' (JStr prompt_str) ins) = map fst ins
           \<and> map_of (AList.update ''text'' (JStr prompt_str) ins) =
               (map_of ins)(''text'' \<mapsto> JStr prompt_str)
           \<and> map fst (AList.update ''inputs''
                         (JObj (AList.update ''text'' (JStr prompt_str) ins)) ob) = map fst ob
           \<and> map_of (AList.update ''inputs''
                        (JObj (AList.update ''text'' (JStr prompt_str) ins)) ob) =
               (map_of ob)(''inputs'' \<mapsto> JObj (AList.update ''text'' (JStr prompt_str) ins))"
    by simp
qed

text \<open>
  A workflow with a sampler and two prompt nodes, the title written "INPUT Prompt":
  the first prompt node is written, the second is not. A workflow with the sampler
  alone fails with \<open>ConfigurationError\<close>.
\<close>

theorem inject_prompt_first_text_node_witness:
  "inject_prompt_into_workflow lower_basic
       (JObj [(''3'', sampler_node), (''6'', prompt_node), (''7'', prompt_node)]) ''a red fox'' =
     Inr (JObj [(''3'', sampler_node),
                (''6'', JObj [(''class_type'', JStr ''CLIPTextEncode''),
                              (''_meta'', JObj [(''title'', JStr ''INPUT Prompt'')]),
                              (''inputs'', JObj [(''text'', JStr ''a red fox''),
                                                 (''clip'', JArr [JStr ''4'', JInt 1])])]),
                (''7'', prompt_node)])
   \<and> inject_prompt_into_workflow lower_basic (JObj [(''3'', sampler_node)]) ''a red fox'' =
       Inl ConfigurationError"
proof -
  have s: "list_all (\<lambda>it. well_formed_node lower_basic (snd it)
                         \<and> \<not> titled_with_text lower_basic (snd it)) [(''3'', sampler_node)]"
    by code_simp
  have t: "titled_with_text lower_basic prompt_node" by code_simp
  from inject_prompt_first_text_node
         [where items = "[(''3'', sampler_node), (''6'', prompt_node), (''7'', prompt_node)]"
            and pre = "[(''3'', sampler_node)]" and node_id = "''6''" and nd = prompt_node
            and post = "[(''7'', prompt_node)]" and prompt_str = "''a red fox''"
            and str_lower = lower_basic] s t
  have a: "inject_prompt_into_workflow lower_basic
       (JObj [(''3'', sampler_node), (''6'', prompt_node), (''7'', prompt_node)]) ''a red fox'' =
     Inr (JObj [(''3'', sampler_node),
                (''6'', JObj [(''class_type'', JStr ''CLIPTextEncode''),
                              (''_meta'', JObj [(''title'', JStr ''INPUT Prompt'')]),
                              (''inputs'', JObj [(''text'', JStr ''a red fox''),
                                                 (''clip'', JArr [JStr ''4'', JInt 1])])]),
                (''7'', prompt_node)])"
    by (auto simp: prompt_node_def)
  have w: "list_all (\<lambda>it. well_formed_node lower_basic (snd it)) [(''3'', sampler_node)]"
    and n: "list_all (\<lambda>it. \<not> titled_with_text lower_basic (snd it)) [(''3'', sampler_node)]"
    using s by simp_all
  from inject_prompt_first_text_node
         [where items = "[(''3'', sampler_node)]" and prompt_str = "''a red fox''"
            and str_lower = lower_basic] w n
  have c: "inject_prompt_into_workflow lower_basic (JObj [(''3'', sampler_node)]) ''a red fox'' =
          Inl ConfigurationError"
    by blast
  from a c show ?thesis by blast
qed

text \<open>
  C8 as stated fails: a workflow that has a node titled "Input Prompt" whose inputs
  hold no \<open>text\<close> key is rejected with \<open>ConfigurationError\<close>, although such a node
  exists. And a workflow that has a prompt node with the title and a text input is
  neither written nor rejected with \<open>ConfigurationError\<close> when an item before that
  node is not a dictionary (a workflow saved from the ComfyUI editor starts with
  \<open>"last_node_id": 12\<close>) or has the title \<open>null\<close>: \<open>AttributeError\<close> leaves the loop.
  When the inputs of the titled node are a list that holds "text", the write raises
  \<open>TypeError\<close>.
\<close>

theorem titled_node_without_text_counterexample:
  "node_title lower_basic titled_node_without_text = Inr ''input prompt''
   \<and> well_formed_node lower_basic titled_node_without_text
   \<and> inject_prompt_into_workflow lower_basic
        (JObj [(''3'', sampler_node), (''6'', titled_node_without_text)]) ''a red fox'' =
       Inl ConfigurationError
   \<and> inject_prompt_into_workflow lower_basic
        (JObj [(''last_node_id'', JInt 12), (''6'', prompt_node)]) ''a red fox'' =
       Inl AttributeError
   \<and> inject_prompt_into_workflow lower_basic
        (JObj [(''3'', JObj [(''_meta'', JObj [(''title'', JNull)])]), (''6'', prompt_node)])
        ''a red fox'' = Inl AttributeError
   \<and> inject_prompt_into_workflow lower_basic
        (JObj [(''3'', JObj [(''_meta'', JObj [(''title'', JStr ''Input Prompt'')]),
                            (''inputs'', JArr [JStr ''text''])])]) ''a red fox'' =
       Inl TypeError"
  by code_simp

section \<open>Properties of the job poller\<close>










text \<open>
  The loop against the clock. While the passes before pass \<open>n\<close> start within the
  timeout and their polls let the loop go on, the loop reaches pass \<open>n\<close> with the
  elapsed time \<open>elapsed_at env poll_interval n\<close>. Conversely every result comes from
  such a pass \<open>n\<close>: it is the timeout when the elapsed time of that pass exceeds the
  timeout, and it is what the poll of that pass returns or raises otherwise.
\<close>

lemma wait_loop_prefix:
  "(\<And>j. j < n \<Longrightarrow> \<not> elapsed_at env poll_interval j > real_of_int timeout \<and>
                      poll_step prompt_id (polls env j) = Continue)
   \<Longrightarrow> wait_loop env prompt_id timeout poll_interval (first_elapsed env) 0 =
       wait_loop env prompt_id timeout poll_interval (elapsed_at env poll_interval n) n"
proof (induction n)
  case 0
  show ?case by simp
next
  case (Suc n)
  have "wait_loop env prompt_id timeout poll_interval (first_elapsed env) 0 =
        wait_loop env prompt_id timeout poll_interval (elapsed_at env poll_interval n) n"
    using Suc.prems by (intro Suc.IH) simp
  also have "\<dots> = wait_loop env prompt_id timeout poll_interval
                     (elapsed_at env poll_interval (Suc n)) (Suc n)"
    using Suc.prems [of n]
    by (subst wait_loop.simps) simp
  finally show ?case .
qed

lemma wait_loop_return:
  assumes "\<not> elapsed > real_of_int timeout"
    and "poll_step prompt_id (polls env i) = Return d"
  shows "wait_loop env prompt_id timeout poll_interval elapsed i = Some (Inr d, elapsed)"
  using assms by (subst wait_loop.simps) simp

lemma wait_loop_raise:
  assumes "\<not> elapsed > real_of_int timeout"
    and "poll_step prompt_id (polls env i) = Raise e"
  shows "wait_loop env prompt_id timeout poll_interval elapsed i = Some (Inl e, elapsed)"
  using assms by (subst wait_loop.simps) simp

lemma wait_loop_decides:
  assumes early: "\<And>j. j < n \<Longrightarrow> \<not> elapsed_at env poll_interval j > real_of_int timeout \<and>
                                   poll_step prompt_id (polls env j) = Continue"
    and now: "\<not> elapsed_at env poll_interval n > real_of_int timeout"
    and step: "poll_step prompt_id (polls env n) = outcome_of r"
  shows "wait_for_comfyui_completion env prompt_id timeout poll_interval =
           Some (r, elapsed_at env poll_interval n)"
proof -
  have "wait_loop env prompt_id timeout poll_interval (first_elapsed env) 0 =
        wait_loop env prompt_id timeout poll_interval (elapsed_at env poll_interval n) n"
    using early by (intro wait_loop_prefix) simp
  also have "\<dots> = Some (r, elapsed_at env poll_interval n)"
    using now step by (subst wait_loop.simps) (simp add: outcome_of_def split: sum.splits)
  finally show ?thesis by (simp add: wait_for_comfyui_completion_def)
qed



text \<open>
  With a positive sleep and passes that take at least their sleep, the elapsed time
  grows by at least one per pass, so some pass starts after the timeout; the first
  such pass raises the timeout when all polls before it let the loop go on.
\<close>

lemma elapsed_at_grows:
  assumes "0 < poll_interval" "clock_advances env"
  shows "first_elapsed env + real n \<le> elapsed_at env poll_interval n"
proof (induction n)
  case 0
  show ?case by simp
next
  case (Suc n)
  have "1 \<le> real_of_int poll_interval" using assms(1) by linarith
  moreover have "0 \<le> overrun env n" using assms(2) by (simp add: clock_advances_def)
  ultimately show ?case using Suc by simp
qed

lemma timeout_is_reached:
  assumes "0 < poll_interval" "clock_advances env"
  shows "\<exists>n. elapsed_at env poll_interval n > real_of_int timeout"
proof -
  obtain n :: nat where "real_of_int timeout - first_elapsed env < real n"
    using reals_Archimedean2 by blast
  with elapsed_at_grows [OF assms, of n] show ?thesis
    by (intro exI [of _ n]) linarith
qed

lemma wait_loop_times_out:
  assumes pos: "0 < poll_interval" and clock: "clock_advances env"
    and cont: "\<And>j. \<not> elapsed_at env poll_interval j > real_of_int timeout
                    \<Longrightarrow> poll_step prompt_id (polls env j) = Continue"
  shows "\<exists>n. wait_for_comfyui_completion env prompt_id timeout poll_interval =
               Some (Inl (TimeoutError timeout), elapsed_at env poll_interval n) \<and>
             elapsed_at env poll_interval n > real_of_int timeout \<and>
             (\<forall>j<n. \<not> elapsed_at env poll_interval j > real_of_int timeout)"
proof -
  define N where "N = (LEAST n. elapsed_at env poll_interval n > real_of_int timeout)"
  have late: "elapsed_at env poll_interval N > real_of_int timeout"
    unfolding N_def using timeout_is_reached [OF pos clock] by (rule LeastI_ex)
  have early: "\<not> elapsed_at env poll_interval j > real_of_int timeout" if "j < N" for j
    using that unfolding N_def by (rule not_less_Least)
  have "wait_loop env prompt_id timeout poll_interval (first_elapsed env) 0 =
        wait_loop env prompt_id timeout poll_interval (elapsed_at env poll_interval N) N"
    using early cont by (intro wait_loop_prefix) simp
  also have "\<dots> = Some (Inl (TimeoutError timeout), elapsed_at env poll_interval N)"
    using late by (subst wait_loop.simps) simp
  finally show ?thesis
    using late early by (auto simp: wait_for_comfyui_completion_def)
qed







lemma answering_decides:
  assumes "poll_step prompt_id outcome = outcome_of r" and "0 \<le> timeout"
  shows "wait_for_comfyui_completion (answering outcome) prompt_id timeout poll_interval =
           Some (r, 0)"
proof -
  have "wait_for_comfyui_completion (answering outcome) prompt_id timeout poll_interval =
          Some (r, elapsed_at (answering outcome) poll_interval 0)"
    using assms by (intro wait_loop_decides) (simp_all add: answering_def)
  then show ?thesis by (simp add: answering_def)
qed


text \<open>
  The assumption on time is needed in this model: with a sleep of zero on a clock that
  stands still the loop never returns.
\<close>

lemma frozen_clock_never_returns:
  "wait_for_comfyui_completion (answering (Answer 503 None)) prompt_id 300 0 = None"
proof (cases "wait_for_comfyui_completion (answering (Answer 503 None)) prompt_id 300 0")
  case None
  then show ?thesis .
next
  case (Some y)
  then have run: "wait_loop (answering (Answer 503 None)) prompt_id 300 0 0 0 = Some y"
    by (simp add: wait_for_comfyui_completion_def answering_def)
  have "\<not> (answering (Answer 503 None) = answering (Answer 503 None) \<and> (300::int) = 300
            \<and> (0::int) = 0 \<and> (0::real) = 0)"
  proof (rule wait_loop.raw_induct
         [where P = "\<lambda>(env :: poll_env) (prompt_id :: string) timeout (poll_interval :: int)
                          (elapsed :: real) (i :: nat) (y :: (error + json) \<times> real).
                       \<not> (env = answering (Answer 503 None) \<and> timeout = 300
                          \<and> poll_interval = 0 \<and> elapsed = 0)",
          OF _ run])
    fix loop :: "poll_env \<Rightarrow> string \<Rightarrow> int \<Rightarrow> int \<Rightarrow> real \<Rightarrow> nat
                  \<Rightarrow> ((error + json) \<times> real) option"
      and env prompt_id timeout poll_interval elapsed i y
    assume IH: "\<And>env prompt_id timeout poll_interval elapsed i y.
                  loop env prompt_id timeout poll_interval elapsed i = Some y \<Longrightarrow>
                  \<not> (env = answering (Answer 503 None) \<and> timeout = 300
                     \<and> poll_interval = 0 \<and> elapsed = 0)"
      and body: "(if elapsed > real_of_int timeout then Some (Inl (TimeoutError timeout), elapsed)
                  else case poll_step prompt_id (polls env i) of
                    Continue \<Rightarrow> loop env prompt_id timeout poll_interval
                                  (elapsed + real_of_int poll_interval + overrun env i) (Suc i)
                  | Return status_data \<Rightarrow> Some (Inr status_data, elapsed)
                  | Raise e \<Rightarrow> Some (Inl e, elapsed)) = Some y"
    show "\<not> (env = answering (Answer 503 None) \<and> timeout = 300
              \<and> poll_interval = 0 \<and> elapsed = 0)"
    proof
      assume h: "env = answering (Answer 503 None) \<and> timeout = 300
                 \<and> poll_interval = 0 \<and> elapsed = 0"
      with body have "loop env prompt_id timeout poll_interval 0 (Suc i) = Some y"
        by (simp add: answering_def poll_step_def)
      from IH [OF this] h show False by simp
    qed
  qed
  then show ?thesis by simp
qed

text \<open>
  C7, as amended. In a pass that polls (the timeout has not passed) and gets HTTP 200
  with a body that is a dictionary holding a dictionary for the prompt id: outputs
  that are true in Python's sense (so a non-empty dictionary) make the poller return
  the body, also without any status and without the completed flag, provided the
  status, if any, is a dictionary that does not carry an error without a true
  completed value; an error in a status dictionary whose completed value is not true
  makes it raise \<open>ExecutionError\<close> in that pass.
\<close>

theorem poll_completion_and_error:
  "(\<not> elapsed > real_of_int timeout \<and> polls env i = Answer 200 (Some (JObj entries))
      \<and> map_of entries prompt_id = Some (JObj entry)
      \<and> map_of entry ''outputs'' = Some outs \<and> truthy outs
      \<and> (case map_of entry ''status'' of
            None \<Rightarrow> True
          | Some (JObj st) \<Rightarrow> truthy (flag_of st) \<or> map_of st ''error'' = None
          | Some _ \<Rightarrow> False) \<longrightarrow>
      wait_loop env prompt_id timeout poll_interval elapsed i =
        Some (Inr (JObj entries), elapsed))
   \<and> (\<not> elapsed > real_of_int timeout \<and> polls env i = Answer 200 (Some (JObj entries))
      \<and> map_of entries prompt_id = Some (JObj entry)
      \<and> map_of entry ''status'' = Some (JObj st)
      \<and> \<not> truthy (flag_of st) \<and> map_of st ''error'' = Some err \<longrightarrow>
      wait_loop env prompt_id timeout poll_interval elapsed i =
        Some (Inl (ExecutionError err), elapsed))"
proof (intro conjI)
  show "\<not> elapsed > real_of_int timeout \<and> polls env i = Answer 200 (Some (JObj entries))
      \<and> map_of entries prompt_id = Some (JObj entry)
      \<and> map_of entry ''outputs'' = Some outs \<and> truthy outs
      \<and> (case map_of entry ''status'' of
            None \<Rightarrow> True
          | Some (JObj st) \<Rightarrow> truthy (flag_of st) \<or> map_of st ''error'' = None
          | Some _ \<Rightarrow> False) \<longrightarrow>
      wait_loop env prompt_id timeout poll_interval elapsed i =
        Some (Inr (JObj entries), elapsed)"
  proof
    assume h: "\<not> elapsed > real_of_int timeout \<and> polls env i = Answer 200 (Some (JObj entries))
      \<and> map_of entries prompt_id = Some (JObj entry)
      \<and> map_of entry ''outputs'' = Some outs \<and> truthy outs
      \<and> (case map_of entry ''status'' of
            None \<Rightarrow> True
          | Some (JObj st) \<Rightarrow> truthy (flag_of st) \<or> map_of st ''error'' = None
          | Some _ \<Rightarrow> False)"
    then have o: "check_outputs (JObj entries) (JObj entry) = Return (JObj entries)"
      by (simp add: check_outputs_def py_contains_def py_getitem_def)
    have "check_execution (JObj entries) (JObj entry) = Return (JObj entries)"
    proof (cases "map_of entry ''status''")
      case None
      with o show ?thesis by (simp add: check_execution_def py_contains_def)
    next
      case (Some s)
      with h obtain st where s: "s = JObj st"
        and ok: "truthy (flag_of st) \<or> map_of st ''error'' = None"
        by (cases s) simp_all
      have "check_status (JObj entries) (JObj st) = Return (JObj entries)
            \<or> check_status (JObj entries) (JObj st) = Continue"
        using ok
        by (auto simp: check_status_def py_get_def py_contains_def flag_of_def
              split: option.splits)
      with Some s o show ?thesis
        by (auto simp: check_execution_def py_contains_def py_getitem_def)
    qed
    with h have "poll_step prompt_id (polls env i) = Return (JObj entries)"
      by (simp add: poll_step_def py_contains_def py_getitem_def)
    with h show "wait_loop env prompt_id timeout poll_interval elapsed i =
        Some (Inr (JObj entries), elapsed)"
      by (intro wait_loop_return) simp_all
  qed
  show "\<not> elapsed > real_of_int timeout \<and> polls env i = Answer 200 (Some (JObj entries))
      \<and> map_of entries prompt_id = Some (JObj entry)
      \<and> map_of entry ''status'' = Some (JObj st)
      \<and> \<not> truthy (flag_of st) \<and> map_of st ''error'' = Some err \<longrightarrow>
      wait_loop env prompt_id timeout poll_interval elapsed i =
        Some (Inl (ExecutionError err), elapsed)"
  proof
    assume h: "\<not> elapsed > real_of_int timeout \<and> polls env i = Answer 200 (Some (JObj entries))
      \<and> map_of entries prompt_id = Some (JObj entry)
      \<and> map_of entry ''status'' = Some (JObj st)
      \<and> \<not> truthy (flag_of st) \<and> map_of st ''error'' = Some err"
    then have "check_status (JObj entries) (JObj st) = Raise (ExecutionError err)"
      by (auto simp: check_status_def py_get_def py_contains_def py_getitem_def flag_of_def
            split: option.splits)
    with h have "check_execution (JObj entries) (JObj entry) = Raise (ExecutionError err)"
      by (simp add: check_execution_def py_contains_def py_getitem_def)
    with h have "poll_step prompt_id (polls env i) = Raise (ExecutionError err)"
      by (simp add: poll_step_def py_contains_def py_getitem_def)
    with h show "wait_loop env prompt_id timeout poll_interval elapsed i =
        Some (Inl (ExecutionError err), elapsed)"
      by (intro wait_loop_raise) simp_all
  qed
qed

text \<open>
  An entry with outputs and no status is returned at once; an entry with an error is
  raised at once.
\<close>

theorem poll_completion_and_error_witness:
  "wait_for_comfyui_completion (env_of outputs_only_entry) ''job-1'' 300 4 =
     Some (Inr (JObj [(''job-1'', outputs_only_entry)]), 0)
   \<and> wait_for_comfyui_completion (env_of error_entry) ''job-1'' 300 4 =
     Some (Inl (ExecutionError (JStr ''out of memory'')), 0)"
proof -
  have a: "wait_loop (env_of outputs_only_entry) ''job-1'' 300 4 0 0 =
             Some (Inr (JObj [(''job-1'', outputs_only_entry)]), 0)"
    using poll_completion_and_error
      [where env = "env_of outputs_only_entry" and elapsed = 0 and timeout = 300 and i = 0
         and entries = "[(''job-1'', outputs_only_entry)]" and prompt_id = "''job-1''"
         and entry = "[(''outputs'', sample_outputs)]" and outs = sample_outputs
         and poll_interval = 4, THEN conjunct1]
    by (simp add: env_of_def answering_def outputs_only_entry_def sample_outputs_def truthy_def)
  have b: "wait_loop (env_of error_entry) ''job-1'' 300 4 0 0 =
             Some (Inl (ExecutionError (JStr ''out of memory'')), 0)"
    using poll_completion_and_error
      [where env = "env_of error_entry" and elapsed = 0 and timeout = 300 and i = 0
         and entries = "[(''job-1'', error_entry)]" and prompt_id = "''job-1''"
         and entry = "[(''status'', JObj [(''error'', JStr ''out of memory'')])]"
         and poll_interval = 4
         and st = "[(''error'', JStr ''out of memory'')]"
         and err = "JStr ''out of memory''", THEN conjunct2]
    by (simp add: env_of_def answering_def error_entry_def flag_of_def truthy_def)
  from a b show ?thesis
    by (simp add: wait_for_comfyui_completion_def env_of_def answering_def)
qed

lemma answering_elapsed: "elapsed_at (answering outcome) 4 n = 4 * real n"
  by (induction n) (simp_all add: answering_def)

lemma answering_times_out:
  assumes "poll_step prompt_id outcome = Continue"
  shows "wait_for_comfyui_completion (answering outcome) prompt_id 300 4 =
           Some (Inl (TimeoutError 300), 304)"
proof -
  have c: "clock_advances (answering outcome)"
    by (simp add: clock_advances_def answering_def)
  have p: "0 < (4::int)" by simp
  have k: "poll_step prompt_id (polls (answering outcome) j) = Continue" for j
    using assms by (simp add: answering_def)
  from wait_loop_times_out [OF p c k, of 300]
  obtain n where r: "wait_for_comfyui_completion (answering outcome) prompt_id 300 4 =
                       Some (Inl (TimeoutError 300), elapsed_at (answering outcome) 4 n)"
    and l: "elapsed_at (answering outcome) 4 n > real_of_int 300"
    and e: "\<forall>j<n. \<not> elapsed_at (answering outcome) 4 j > real_of_int 300"
    by blast
  from l have "4 * real n > 300" by (simp add: answering_elapsed)
  then have "76 \<le> n" by linarith
  moreover have "n \<le> 76"
  proof (rule ccontr)
    assume "\<not> n \<le> 76"
    then have "76 < n" by simp
    with e have "\<not> elapsed_at (answering outcome) 4 76 > real_of_int 300" by blast
    then show False by (simp add: answering_elapsed)
  qed
  ultimately have "n = 76" by simp
  with r show ?thesis by (simp add: answering_elapsed)
qed

text \<open>
  C7 as stated fails in both halves: an entry with non-empty outputs whose status
  carries an error makes the poller raise instead of return, and an entry whose status
  carries an error together with the completed flag makes it return instead of raise.
  The code checks the completed flag first, then the error, then the outputs. An
  entry with non-empty outputs whose status is \<open>null\<close> makes the poller raise
  \<open>AttributeError\<close>, and a body with non-empty outputs that comes with HTTP 503 is
  not looked at: the poller times out, with the defaults in pass 76 at 304 seconds.
\<close>

theorem poll_priority_counterexample:
  "py_getitem outputs_and_error_entry ''outputs'' = Inr sample_outputs
   \<and> sample_outputs \<noteq> JObj []
   \<and> wait_for_comfyui_completion (env_of outputs_and_error_entry) ''job-1'' 300 4 =
       Some (Inl (ExecutionError (JStr ''out of memory'')), 0)
   \<and> py_getitem completed_and_error_entry ''status'' =
       Inr (JObj [(''completed'', JBool True), (''error'', JStr ''node 4 warning'')])
   \<and> wait_for_comfyui_completion (env_of completed_and_error_entry) ''job-1'' 300 4 =
       Some (Inr (JObj [(''job-1'', completed_and_error_entry)]), 0)
   \<and> py_getitem outputs_and_null_status_entry ''outputs'' = Inr sample_outputs
   \<and> wait_for_comfyui_completion (env_of outputs_and_null_status_entry) ''job-1'' 300 4 =
       Some (Inl AttributeError, 0)
   \<and> wait_for_comfyui_completion
         (answering (Answer 503 (Some (JObj [(''job-1'', outputs_only_entry)])))) ''job-1'' 300 4 =
       Some (Inl (TimeoutError 300), 304)"
proof -
  have a: "poll_step ''job-1'' (Answer 200 (Some (JObj [(''job-1'', outputs_and_error_entry)]))) =
             outcome_of (Inl (ExecutionError (JStr ''out of memory'')))"
    by (simp add: poll_step_def check_execution_def check_status_def
          outputs_and_error_entry_def py_contains_def py_getitem_def py_get_def truthy_def
          outcome_of_def)
  have b: "poll_step ''job-1'' (Answer 200 (Some (JObj [(''job-1'', completed_and_error_entry)]))) =
             outcome_of (Inr (JObj [(''job-1'', completed_and_error_entry)]))"
    by (simp add: poll_step_def check_execution_def check_status_def
          completed_and_error_entry_def py_contains_def py_getitem_def py_get_def truthy_def
          outcome_of_def)
  have c: "poll_step ''job-1''
             (Answer 200 (Some (JObj [(''job-1'', outputs_and_null_status_entry)]))) =
             outcome_of (Inl AttributeError)"
    by (simp add: poll_step_def check_execution_def check_status_def
          outputs_and_null_status_entry_def py_contains_def py_getitem_def py_get_def
          outcome_of_def)
  have d: "poll_step ''job-1'' (Answer 503 (Some (JObj [(''job-1'', outputs_only_entry)]))) =
             Continue"
    by (simp add: poll_step_def)
  have e: "py_getitem outputs_and_error_entry ''outputs'' = Inr sample_outputs"
    "sample_outputs \<noteq> JObj []"
    "py_getitem completed_and_error_entry ''status'' =
       Inr (JObj [(''completed'', JBool True), (''error'', JStr ''node 4 warning'')])"
    "py_getitem outputs_and_null_status_entry ''outputs'' = Inr sample_outputs"
    by (simp_all add: py_getitem_def outputs_and_error_entry_def sample_outputs_def
          completed_and_error_entry_def outputs_and_null_status_entry_def)
  show ?thesis
    unfolding env_of_def
    using answering_decides [OF a, of 300 4] answering_decides [OF b, of 300 4]
      answering_decides [OF c, of 300 4] answering_times_out [OF d] e
    by simp
qed

text \<open>Bodies, entries and statuses of another type than the code expects.\<close>

lemma ill_typed_poll_raises:
  "poll_step ''job-1'' (Answer 200 (Some JNull)) = Raise TypeError
   \<and> poll_step ''job-1'' (Answer 200 (Some (JInt 0))) = Raise TypeError
   \<and> poll_step ''job-1'' (Answer 200 (Some (JArr []))) = Continue
   \<and> poll_step ''job-1'' (Answer 200 (Some (JArr [JStr ''job-1'']))) = Raise TypeError
   \<and> poll_step ''job-1'' (Answer 200 (Some (JObj [(''job-1'', JNull)]))) = Raise TypeError
   \<and> poll_step ''job-1'' (Answer 200 (Some (JObj [(''job-1'', JObj [(''status'', JNull)])]))) =
       Raise AttributeError
   \<and> poll_step ''job-1''
       (Answer 200 (Some (JObj [(''job-1'', JObj [(''status'', JStr ''error'')])]))) =
       Raise AttributeError"
  by (simp add: poll_step_def check_execution_def check_status_def py_contains_def
        py_getitem_def py_get_def)

section \<open>Properties of generation and of the entry point\<close>

text \<open>
  C2. \<open>get_image_prompt\<close> appends the theme only when asked to, but \<open>generate_image\<close>
  asks for it whenever no stock provider is selected and hands the composed text to
  the agent-driven search before any generation. So whenever generation is enabled, a
  generative provider is selected, the agent is configured and the prompt has a theme,
  the first call of the run is the search, and it receives the prompt with the theme
  appended, not the literal prompt.
\<close>

theorem agent_search_receives_theme:
  assumes "\<not> is_image_generation_disabled cfg"
    and "\<not> is_stock_provider_selected cfg"
    and "openai_agent_url cfg = Some agent_url" and "agent_url \<noteq> []"
    and "theme_prompt p = Some theme" and "theme \<noteq> []"
  shows "\<exists>later. gen_calls (generate_image cfg p) =
           AgentSearch (prompt p @ '', '' @ theme) (language p) # later"
  using assms
  by (auto simp: generate_image_def Let_def agent_search_multiple_sources_def get_image_prompt_def
      split: option.splits)

text \<open>
  For the prompt "a red fox" with the theme "watercolor style", the search receives
  "a red fox, watercolor style".
\<close>

theorem agent_search_receives_theme_witness:
  "get_image_prompt themed_prompt False = ''a red fox''
   \<and> (\<exists>later. gen_calls (generate_image agent_config themed_prompt) =
         AgentSearch ''a red fox, watercolor style'' ''English'' # later)"
proof -
  have "\<exists>later. gen_calls (generate_image agent_config themed_prompt) =
      AgentSearch (prompt themed_prompt @ '', '' @ ''watercolor style'')
        (language themed_prompt) # later"
    by (rule agent_search_receives_theme [where agent_url = "''http://agent:8000''"])
       (simp_all add: agent_config_def themed_prompt_def)
  then show ?thesis by (simp add: themed_prompt_def get_image_prompt_def)
qed

text \<open>
  Whatever the configuration, the text handed to the search and to the generation
  function is the one composed with \<open>with_theme = not is_stock\<close>; with a stock
  provider selected it is the literal prompt.
\<close>

lemma generate_image_calls:
  "list_all (\<lambda>c. c = AgentSearch (get_image_prompt p (\<not> is_stock_provider_selected cfg)) (language p)
               \<or> c = ImageGen (get_image_prompt p (\<not> is_stock_provider_selected cfg)))
     (gen_calls (generate_image cfg p))"
  by (auto simp: generate_image_def Let_def agent_search_multiple_sources_def
      split: option.splits)

lemma get_image_prompt_literal: "get_image_prompt p False = prompt p"
  by (simp add: get_image_prompt_def split: option.splits)

text \<open>
  No exception leaves \<open>generate_image\<close>, so the handler of \<open>get_adaptive_image\<close> that
  builds the candidate with source "placeholder" is never entered.
\<close>

lemma generate_image_never_raises: "\<exists>r. gen_returned (generate_image cfg p) = Inr r"
  by (simp add: generate_image_def Let_def split: option.splits sum.splits)

text \<open>
  C3. Whenever \<open>get_adaptive_image\<close> returns with the decision "generate", its one
  candidate is wrapped as a generated image (source "ai", attribution "AI Generated").
  When generation fails (it is enabled, the agent search finds nothing, and the
  generation function raises), \<open>generate_image\<close> catches the exception and returns
  the placeholder path as an ordinary result, so the candidate has the placeholder URL
  with source "ai": the candidate with source "placeholder" is never in the response.
\<close>

theorem generation_failure_is_labelled_ai:
  assumes ret: "get_adaptive_image env prompt_str lang = Inr response"
    and gen: "decision response = ''generate''"
  shows "(\<exists>u. images response = [ai_image u prompt_str])
       \<and> (\<not> is_image_generation_disabled (env_gen env)
            \<and> fst (agent_search_multiple_sources (env_gen env) prompt_str lang) = []
            \<and> image_gen_func (env_gen env) = Some gen_func
            \<and> gen_func prompt_str = Inl e \<longrightarrow>
          images response = [ai_image ''/static/images/placeholder.jpg'' prompt_str])
       \<and> placeholder_image \<notin> set (images response)"
proof -
  from ret obtain d r where
    dec: "returned (decide_image_source (env_lower env) (env_json_loads env) (env_llm env) prompt_str) = Inr (d, r)"
    by (auto simp: get_adaptive_image_def split: sum.splits)
  let ?g = "generate_image (env_gen env)
              \<lparr>prompt = prompt_str, theme_prompt = None, language = lang\<rparr>"
  from generate_image_never_raises obtain res where res: "gen_returned ?g = Inr res" by blast
  from ret gen dec res have img:
    "images response = (case res of Path u \<Rightarrow> [ai_image u prompt_str]
                                  | Asset a \<Rightarrow> [ai_image (path a) prompt_str])"
    by (auto simp: get_adaptive_image_def Let_def split: json.splits if_splits gen_result.splits)
  then have one: "\<exists>u. images response = [ai_image u prompt_str]"
    by (cases res) auto
  have fail: "images response = [ai_image ''/static/images/placeholder.jpg'' prompt_str]"
    if "\<not> is_image_generation_disabled (env_gen env)
            \<and> fst (agent_search_multiple_sources (env_gen env) prompt_str lang) = []
            \<and> image_gen_func (env_gen env) = Some gen_func
            \<and> gen_func prompt_str = Inl e"
  proof -
    from that have "gen_returned ?g = Inr (Path ''/static/images/placeholder.jpg'')"
      by (simp add: generate_image_def Let_def get_image_prompt_def placeholder_path_def)
    with res img show ?thesis by auto
  qed
  from one have "placeholder_image \<notin> set (images response)"
    by (auto simp: ai_image_def placeholder_image_def)
  with one fail show ?thesis by blast
qed

text \<open>
  Every search adapter fails and the generation function raises: the response holds
  the placeholder URL labelled as generated.
\<close>

theorem generation_failure_is_labelled_ai_witness:
  "get_adaptive_image failing_env ''Pendulum oscillation period'' ''English'' =
     Inr \<lparr>decision = ''generate'',
          reason = ''Search returned no results, falling back to AI generation'',
          images = [\<lparr>url = ''/static/images/placeholder.jpg'', thumbnail_url = None,
                     source = ''ai'', attribution = Some ''AI Generated'',
                     description = Some ''Pendulum oscillation period''\<rparr>]\<rparr>
   \<and> placeholder_image \<notin>
       set [\<lparr>url = ''/static/images/placeholder.jpg'', thumbnail_url = None,
              source = ''ai'', attribution = Some ''AI Generated'',
              description = Some ''Pendulum oscillation period''\<rparr>]"
proof -
  let ?response =
    "\<lparr>decision = ''generate'',
      reason = ''Search returned no results, falling back to AI generation'',
      images = [\<lparr>url = ''/static/images/placeholder.jpg'', thumbnail_url = None,
                 source = ''ai'', attribution = Some ''AI Generated'',
                 description = Some ''Pendulum oscillation period''\<rparr>]\<rparr>"
  have run: "get_adaptive_image failing_env ''Pendulum oscillation period'' ''English'' =
               Inr ?response"
    by code_simp
  have gen: "decision ?response = ''generate''" by simp
  from generation_failure_is_labelled_ai [OF run gen]
  have "placeholder_image \<notin> set (images ?response)" by blast
  with run show ?thesis by simp
qed

lemma decision_is_search_or_generate:
  "returned (decide_image_source str_lower json_loads llm prompt_str) = Inr (d, r) \<Longrightarrow>
   d = ''search'' \<or> d = ''generate''"
  by (auto simp: decide_image_source_def Let_def parse_decision_def default_decision_def
      split: llm_outcome.splits option.splits json.splits if_splits)

text \<open>Whenever the entry point returns a response, its list of images is not empty.\<close>

lemma adaptive_images_never_empty:
  assumes "get_adaptive_image env prompt_str lang = Inr response"
  shows "images response \<noteq> []"
proof -
  from assms obtain d r where
    dec: "returned (decide_image_source (env_lower env) (env_json_loads env) (env_llm env) prompt_str) = Inr (d, r)"
    by (auto simp: get_adaptive_image_def split: sum.splits)
  from decision_is_search_or_generate [OF dec] have "d = ''search'' \<or> d = ''generate''" .
  with assms dec show ?thesis
    by (auto simp: get_adaptive_image_def Let_def ai_image_def placeholder_image_def
        split: sum.splits json.splits gen_result.splits if_splits)
qed

theorem adaptive_images_never_empty_witness:
  "\<exists>response. get_adaptive_image failing_env ''Pendulum oscillation period'' ''English'' =
                 Inr response \<and> images response \<noteq> []"
proof -
  have "get_adaptive_image failing_env ''Pendulum oscillation period'' ''English'' =
     Inr \<lparr>decision = ''generate'',
          reason = ''Search returned no results, falling back to AI generation'',
          images = [ai_image ''/static/images/placeholder.jpg'' ''Pendulum oscillation period'']\<rparr>"
    by code_simp
  with adaptive_images_never_empty [OF this] show ?thesis by blast
qed

end
